theory Spec2Isabelle
  imports Complex_Main "HOL-Library.Multiset"
begin

section \<open>Strings of the host language\<close>

text \<open>
  A string is a list of 8-bit characters: the model covers the strings whose code units
  are below 256 (Latin-1). The functions of this section are the string methods the
  search service and the result list call.
\<close>

definition NL :: char where
  "NL = char_of (10::nat)"

definition BSL :: char where
  "BSL = char_of (92::nat)"

definition js_whitespace :: "char \<Rightarrow> bool" where
  \<comment> \<open>the white space and line terminators below 256: what \<open>trim\<close> strips and \<open>\s\<close> matches\<close>
  "js_whitespace c = (of_char c \<in> {9, 10, 11, 12, 13, 32, 160 :: nat})"

definition trim :: "string \<Rightarrow> string" where
  "trim s = rev (dropWhile js_whitespace (rev (dropWhile js_whitespace s)))"

definition js_lower :: "char \<Rightarrow> char" where
  "js_lower c =
     (let n = (of_char c :: nat)
      in if (65 \<le> n \<and> n \<le> 90) \<or> (192 \<le> n \<and> n \<le> 222 \<and> n \<noteq> 215)
         then char_of (n + 32) else c)"

definition toLowerCase :: "string \<Rightarrow> string" where
  "toLowerCase s = map js_lower s"

fun split_ws_from :: "string \<Rightarrow> string \<Rightarrow> bool \<Rightarrow> string list" where
  "split_ws_from [] cur in_sep = [rev cur]"
| "split_ws_from (c # cs) cur in_sep =
     (if js_whitespace c
      then (if in_sep then split_ws_from cs cur True
            else rev cur # split_ws_from cs [] True)
      else split_ws_from cs (c # cur) False)"

definition split_ws :: "string \<Rightarrow> string list" where
  \<comment> \<open>\<open>s.split(/\s+/)\<close>: the pieces between maximal runs of white space\<close>
  "split_ws s = split_ws_from s [] False"

fun split_on :: "char \<Rightarrow> string \<Rightarrow> string list" where
  \<comment> \<open>\<open>s.split(c)\<close> for a one-character separator\<close>
  "split_on c [] = [[]]"
| "split_on c (x # xs) =
     (if x = c then [] # split_on c xs
      else (case split_on c xs of
              [] \<Rightarrow> [[x]]
            | l # ls \<Rightarrow> (x # l) # ls))"

fun join :: "string \<Rightarrow> string list \<Rightarrow> string" where
  "join sep [] = []"
| "join sep [x] = x"
| "join sep (x # y # ys) = x @ sep @ join sep (y # ys)"

fun str_includes :: "string \<Rightarrow> string \<Rightarrow> bool" where
  \<comment> \<open>\<open>s.includes(t)\<close>\<close>
  "str_includes [] t = (t = [])"
| "str_includes (c # cs) t = (take (length t) (c # cs) = t \<or> str_includes cs t)"

definition special_chars :: "char set" where
  \<comment> \<open>the class \<open>[.*+?^${}()|[\]\\]\<close>\<close>
  "special_chars = insert BSL (set ''.*+?^${}()|[]'')"

definition escape_special :: "string \<Rightarrow> string" where
  \<comment> \<open>\<open>s.replace(/[.*+?^${}()|[\]\\]/g, '\\$&')\<close>\<close>
  "escape_special s = concat (map (\<lambda>c. if c \<in> special_chars then [BSL, c] else [c]) s)"

function show_nat :: "nat \<Rightarrow> string" where
  "show_nat n =
     (if n < 10 then [char_of (48 + n)]
      else show_nat (n div 10) @ [char_of (48 + n mod 10)])"
  by pat_completeness auto
termination
  by (relation "measure id") auto

definition show_int :: "int \<Rightarrow> string" where
  "show_int i = (if i < 0 then CHR ''-'' # show_nat (nat (- i)) else show_nat (nat i))"

section \<open>Regular-expression objects\<close>

text \<open>
  A compiled pattern is its matcher: \<open>m s i = Some l\<close> when the pattern matches the
  input \<open>s\<close> at position \<open>i\<close> with a match of length \<open>l\<close>. A regular-expression object
  carries the matcher, the global flag and the mutable \<open>lastIndex\<close>; \<open>exec\<close>, \<open>test\<close>,
  \<open>match\<close> and \<open>replace\<close> follow the language standard (RegExpBuiltinExec and the
  loops of the two string methods), with the object passed in and returned.
\<close>

type_synonym matcher = "string \<Rightarrow> nat \<Rightarrow> nat option"

record RegExp =
  matcher :: matcher
  global :: bool
  lastIndex :: nat

datatype js_error = SyntaxError string

text \<open>
  What the code asks of its platform: the pattern compiler behind \<open>new RegExp\<close>
  (\<open>None\<close> when it throws a SyntaxError), the message of that SyntaxError for a pattern
  and its flags (the wording is the engine's own), the date parser behind \<open>new Date(s)\<close>
  (milliseconds since the epoch, \<open>None\<close> for an invalid date), and the clock, as
  milliseconds and as an ISO string.
\<close>

record platform =
  regexp_compile :: "string \<Rightarrow> bool \<Rightarrow> matcher option"
  syntax_error_text :: "string \<Rightarrow> string \<Rightarrow> string"
  date_parse :: "string \<Rightarrow> int option"
  clock_now :: int
  clock_iso :: string

definition new_RegExp :: "platform \<Rightarrow> string \<Rightarrow> string \<Rightarrow> js_error + RegExp" where
  \<comment> \<open>\<open>new RegExp(pattern, flags)\<close> for flags among \<open>g\<close> and \<open>i\<close>\<close>
  "new_RegExp env pattern flags =
     (case regexp_compile env pattern (CHR ''i'' \<in> set flags) of
        None \<Rightarrow> Inl (SyntaxError (syntax_error_text env pattern flags))
      | Some m \<Rightarrow> Inr \<lparr>matcher = m, global = (CHR ''g'' \<in> set flags), lastIndex = 0\<rparr>)"

function search_from :: "matcher \<Rightarrow> string \<Rightarrow> nat \<Rightarrow> (nat \<times> nat) option" where
  "search_from m s i =
     (if length s < i then None
      else (case m s i of
              Some l \<Rightarrow> Some (i, l)
            | None \<Rightarrow> search_from m s (Suc i)))"
  by pat_completeness auto
termination
  by (relation "measure (\<lambda>(m, s, i). Suc (length s) - i)") auto

declare search_from.simps [simp del]

definition RegExp_exec :: "RegExp \<Rightarrow> string \<Rightarrow> (nat \<times> nat) option \<times> RegExp" where
  "RegExp_exec r s =
     (case search_from (matcher r) s (if global r then lastIndex r else 0) of
        None \<Rightarrow> (None, if global r then r\<lparr>lastIndex := 0\<rparr> else r)
      | Some (p, l) \<Rightarrow> (Some (p, l), if global r then r\<lparr>lastIndex := p + l\<rparr> else r))"

definition RegExp_test :: "RegExp \<Rightarrow> string \<Rightarrow> bool \<times> RegExp" where
  "RegExp_test r s = (case RegExp_exec r s of (res, r') \<Rightarrow> (res \<noteq> None, r'))"

lemma search_from_bounds:
  "search_from m s i = Some (p, l) \<Longrightarrow> i \<le> p \<and> p \<le> length s \<and> m s p = Some l"
proof (induction m s i rule: search_from.induct)
  case (1 m s i)
  show ?case
  proof (cases "m s i")
    case None
    with "1.prems" have "search_from m s (Suc i) = Some (p, l)" and "\<not> length s < i"
      by (auto simp: search_from.simps [of m s i] split: if_splits)
    with "1.IH" [OF _ None] show ?thesis by auto
  next
    case (Some a)
    with "1.prems" show ?thesis
      by (auto simp: search_from.simps [of m s i] split: if_splits)
  qed
qed

function match_all_from :: "matcher \<Rightarrow> string \<Rightarrow> nat \<Rightarrow> (nat \<times> nat) list" where
  \<comment> \<open>the successive matches of a global pattern, an empty match advancing by one\<close>
  "match_all_from m s i =
     (case search_from m s i of
        None \<Rightarrow> []
      | Some (p, l) \<Rightarrow> (p, l) # match_all_from m s (if l = 0 then Suc p else p + l))"
  by pat_completeness auto
termination
proof (relation "measure (\<lambda>(m, s, i). Suc (length s) - i)", goal_cases)
  case 1
  show ?case by simp
next
  case (2 m s i x p l)
  then have "search_from m s i = Some (p, l)" by simp
  from search_from_bounds [OF this] show ?case by auto
qed

declare match_all_from.simps [simp del]

subsection \<open>A pattern compiler for a fragment of the pattern language\<close>

text \<open>
  The general results below hold for every pattern compiler. The closed examples need one
  that runs: \<open>js_compile\<close> implements the pattern grammar and the backtracking semantics
  of the language standard for the patterns built from ordinary characters, \<open>.\<close>,
  \<open>^\<close>, \<open>$\<close>, \<open>\b\<close>, \<open>\B\<close>, backslash-escaped punctuation, groups \<open>(...)\<close> and
  \<open>(?:...)\<close>, alternation and the quantifiers \<open>*\<close>, \<open>+\<close>, \<open>?\<close> (greedy and lazy).
  On these patterns it answers \<open>None\<close> exactly where \<open>new RegExp\<close> throws a SyntaxError
  (a quantifier with nothing to repeat, an unterminated group, an unmatched closing
  parenthesis, a trailing backslash). Character classes, braces, look-around and the
  letter and digit escapes are outside the fragment (\<open>rx_supported\<close> is false) and are
  not used by the examples (\<open>example_patterns_supported\<close>).
\<close>

datatype rx =
    REmpty
  | RChar char
  | RDot
  | RBol
  | REol
  | RWordB bool
  | RSeq rx rx
  | RAlt rx rx
  | RStar rx bool
  | ROpt rx bool

definition js_upper :: "char \<Rightarrow> char" where
  "js_upper c =
     (let n = (of_char c :: nat)
      in if (97 \<le> n \<and> n \<le> 122) \<or> (224 \<le> n \<and> n \<le> 254 \<and> n \<noteq> 247)
         then char_of (n - 32) else c)"

definition is_alnum :: "char \<Rightarrow> bool" where
  "is_alnum c =
     (let n = (of_char c :: nat)
      in (48 \<le> n \<and> n \<le> 57) \<or> (65 \<le> n \<and> n \<le> 90) \<or> (97 \<le> n \<and> n \<le> 122))"

definition is_word_char :: "char \<Rightarrow> bool" where
  "is_word_char c = (is_alnum c \<or> c = CHR ''_'')"

definition word_at :: "string \<Rightarrow> int \<Rightarrow> bool" where
  "word_at s i = (0 \<le> i \<and> i < int (length s) \<and> is_word_char (s ! nat i))"

function rx_ends :: "bool \<Rightarrow> rx \<Rightarrow> string \<Rightarrow> nat \<Rightarrow> nat list" where
  \<comment> \<open>the end positions of the matches that start at \<open>i\<close>, in backtracking order\<close>
  "rx_ends ic REmpty s i = [i]"
| "rx_ends ic (RChar c) s i =
     (if i < length s \<and> (if ic then js_upper (s ! i) = js_upper c else s ! i = c)
      then [Suc i] else [])"
| "rx_ends ic RDot s i =
     (if i < length s \<and> of_char (s ! i) \<notin> {10, 13 :: nat} then [Suc i] else [])"
| "rx_ends ic RBol s i = (if i = 0 then [i] else [])"
| "rx_ends ic REol s i = (if i = length s then [i] else [])"
| "rx_ends ic (RWordB b) s i =
     (if (word_at s (int i - 1) \<noteq> word_at s (int i)) = b then [i] else [])"
| "rx_ends ic (RSeq a b) s i = concat (map (\<lambda>j. rx_ends ic b s j) (rx_ends ic a s i))"
| "rx_ends ic (RAlt a b) s i = rx_ends ic a s i @ rx_ends ic b s i"
| "rx_ends ic (RStar r greedy) s i =
     (let more = concat (map (\<lambda>j. if i < j \<and> j \<le> length s
                                    then rx_ends ic (RStar r greedy) s j else [])
                             (rx_ends ic r s i))
      in if greedy then more @ [i] else i # more)"
| "rx_ends ic (ROpt r greedy) s i =
     (let once = filter (\<lambda>j. j \<noteq> i) (rx_ends ic r s i)
      in if greedy then once @ [i] else i # once)"
  by pat_completeness auto
termination
  by (relation "measures [\<lambda>(ic, r, s, i). size r, \<lambda>(ic, r, s, i). length s - i]") auto

datatype qstate = NoAtom | CanQuantify | CanLazy

fun mk_seq :: "rx list \<Rightarrow> rx" where
  \<comment> \<open>the terms of an alternative, last term first\<close>
  "mk_seq [] = REmpty"
| "mk_seq [t] = t"
| "mk_seq (t # ts) = RSeq (mk_seq ts) t"

fun mk_alt :: "rx list \<Rightarrow> rx" where
  \<comment> \<open>the alternatives of a disjunction, last alternative first\<close>
  "mk_alt [] = REmpty"
| "mk_alt [a] = a"
| "mk_alt (a # as) = RAlt (mk_alt as) a"

definition close_group :: "rx list \<Rightarrow> rx list \<Rightarrow> rx" where
  "close_group alts terms = mk_alt (mk_seq terms # alts)"

definition quantify :: "char \<Rightarrow> rx \<Rightarrow> rx" where
  "quantify c a =
     (if c = CHR ''*'' then RStar a True
      else if c = CHR ''+'' then RSeq a (RStar a True)
      else ROpt a True)"

fun make_lazy :: "rx \<Rightarrow> rx" where
  "make_lazy (RStar a g) = RStar a False"
| "make_lazy (RSeq a (RStar b g)) = RSeq a (RStar b False)"
| "make_lazy (ROpt a g) = ROpt a False"
| "make_lazy r = r"

fun parse_rx ::
  "(rx list \<times> rx list) list \<Rightarrow> rx list \<Rightarrow> rx list \<Rightarrow> qstate \<Rightarrow> string \<Rightarrow> rx option" where
  "parse_rx stack alts terms q [] =
     (if stack = [] then Some (close_group alts terms) else None)"
| "parse_rx stack alts terms q (c # cs) =
     (if c = CHR ''('' then
        (case cs of
           [] \<Rightarrow> None
         | d # ds \<Rightarrow>
             if d = CHR ''?'' then
               (case ds of
                  [] \<Rightarrow> None
                | e # es \<Rightarrow> if e = CHR '':'' then parse_rx ((alts, terms) # stack) [] [] NoAtom es
                            else None)
             else parse_rx ((alts, terms) # stack) [] [] NoAtom cs)
      else if c = CHR '')'' then
        (case stack of
           [] \<Rightarrow> None
         | (alts', terms') # stack' \<Rightarrow>
             parse_rx stack' alts' (close_group alts terms # terms') CanQuantify cs)
      else if c = CHR ''|'' then parse_rx stack (mk_seq terms # alts) [] NoAtom cs
      else if c = CHR ''*'' \<or> c = CHR ''+'' \<or> c = CHR ''?'' then
        (case terms of
           [] \<Rightarrow> None
         | a # terms' \<Rightarrow>
             if q = CanQuantify then parse_rx stack alts (quantify c a # terms') CanLazy cs
             else if q = CanLazy \<and> c = CHR ''?'' then
               parse_rx stack alts (make_lazy a # terms') NoAtom cs
             else None)
      else if c = CHR ''^'' then parse_rx stack alts (RBol # terms) NoAtom cs
      else if c = CHR ''$'' then parse_rx stack alts (REol # terms) NoAtom cs
      else if c = CHR ''.'' then parse_rx stack alts (RDot # terms) CanQuantify cs
      else if c = BSL then
        (case cs of
           [] \<Rightarrow> None
         | e # es \<Rightarrow>
             if e = CHR ''b'' then parse_rx stack alts (RWordB True # terms) NoAtom es
             else if e = CHR ''B'' then parse_rx stack alts (RWordB False # terms) NoAtom es
             else if is_alnum e then None
             else parse_rx stack alts (RChar e # terms) CanQuantify es)
      else if c = CHR ''['' \<or> c = CHR ''{'' then None
      else parse_rx stack alts (RChar c # terms) CanQuantify cs)"

fun rx_supported :: "string \<Rightarrow> bool" where
  \<comment> \<open>the pattern uses the constructs of the fragment only\<close>
  "rx_supported [] = True"
| "rx_supported [c] = (c \<noteq> CHR ''['' \<and> c \<noteq> CHR ''{'')"
| "rx_supported (c # d # ds) =
     (if c = BSL then (d = CHR ''b'' \<or> d = CHR ''B'' \<or> \<not> is_alnum d) \<and> rx_supported ds
      else if c = CHR ''['' \<or> c = CHR ''{'' then False
      else if c = CHR ''('' \<and> d = CHR ''?'' then
        (case ds of [] \<Rightarrow> True | e # es \<Rightarrow> e = CHR '':'' \<and> rx_supported es)
      else rx_supported (d # ds))"

definition js_compile :: "string \<Rightarrow> bool \<Rightarrow> matcher option" where
  "js_compile pattern ignoreCase =
     (case parse_rx [] [] [] NoAtom pattern of
        None \<Rightarrow> None
      | Some r \<Rightarrow>
          Some (\<lambda>s i. case rx_ends ignoreCase r s i of [] \<Rightarrow> None | e # _ \<Rightarrow> Some (e - i)))"

text \<open>
  The message of the SyntaxError, as V8 words it: the pattern between slashes, the flags,
  and the reason of the first failure met from the left. \<open>syntax_reason\<close> follows the
  cases of \<open>parse_rx\<close>, with the depth of the open groups for its stack.
\<close>

fun syntax_reason :: "nat \<Rightarrow> qstate \<Rightarrow> string \<Rightarrow> string" where
  "syntax_reason depth q [] = (if depth = 0 then [] else ''Unterminated group'')"
| "syntax_reason depth q (c # cs) =
     (if c = CHR ''('' then
        (case cs of
           [] \<Rightarrow> ''Unterminated group''
         | d # ds \<Rightarrow>
             if d = CHR ''?'' then
               (case ds of
                  [] \<Rightarrow> ''Invalid group''
                | e # es \<Rightarrow> if e = CHR '':'' then syntax_reason (Suc depth) NoAtom es
                            else ''Invalid group'')
             else syntax_reason (Suc depth) NoAtom cs)
      else if c = CHR '')'' then
        (case depth of
           0 \<Rightarrow> ''Unmatched '' @ [char_of (39 :: nat)] @ '')'' @ [char_of (39 :: nat)]
         | Suc depth' \<Rightarrow> syntax_reason depth' CanQuantify cs)
      else if c = CHR ''|'' then syntax_reason depth NoAtom cs
      else if c = CHR ''*'' \<or> c = CHR ''+'' \<or> c = CHR ''?'' then
        (if q = CanQuantify then syntax_reason depth CanLazy cs
         else if q = CanLazy \<and> c = CHR ''?'' then syntax_reason depth NoAtom cs
         else ''Nothing to repeat'')
      else if c = CHR ''^'' \<or> c = CHR ''$'' then syntax_reason depth NoAtom cs
      else if c = BSL then
        (case cs of
           [] \<Rightarrow> BSL # '' at end of pattern''
         | e # es \<Rightarrow>
             if e = CHR ''b'' \<or> e = CHR ''B'' then syntax_reason depth NoAtom es
             else syntax_reason depth CanQuantify es)
      else syntax_reason depth CanQuantify cs)"

definition js_syntax_error_text :: "string \<Rightarrow> string \<Rightarrow> string" where
  "js_syntax_error_text pattern flags =
     ''Invalid regular expression: /'' @ pattern @ ''/'' @ flags @ '': '' @
     syntax_reason 0 NoAtom pattern"

section \<open>The data model (types.ts)\<close>

datatype result_type = Repository | Code | Community

record owner_info =
  login :: string
  avatar_url :: string
  owner_url :: "string option"

record api_source =
  api_name :: string
  api_url :: string

text \<open>
  An optional field is an \<open>option\<close>, \<open>None\<close> being \<open>undefined\<close>; \<open>license\<close> can
  also be \<open>null\<close> (\<open>Some None\<close>). The fields \<open>apiSource\<close> and \<open>hasRepoData\<close> are
  the ones the aggregator adds to the objects.
\<close>

record SearchResult =
  result_id :: string
  title :: string
  rtype :: result_type
  source :: string
  url :: string
  snippet :: "string option"
  description :: "string option"
  language :: "string option"
  stars :: "int option"
  forks :: "int option"
  timestamp :: string
  owner :: "owner_info option"
  topics :: "string list option"
  openIssues :: "int option"
  watchers :: "int option"
  license :: "string option option"
  path :: "string option"
  lineNumbers :: "int list option"
  score :: "rat option"
  apiSource :: "api_source option"
  hasRepoData :: bool

section \<open>The upstream services\<close>

text \<open>
  The answers of the three endpoints are inputs of the model. A request either is rejected
  by the HTTP client with an error object (its \<open>response\<close> with status and message when
  the server answered, its \<open>code\<close>, its \<open>message\<close>), or it returns a status, a status
  text and the payload; \<open>items\<close> is \<open>None\<close> when the payload has no array of items.
  The request URL (filters, sort order, page size) is not modelled.
\<close>

datatype thrown =
  Thrown (response: "(nat \<times> string option) option") (code: "string option") (message: string)

definition plain_error :: "string \<Rightarrow> thrown" where
  \<comment> \<open>\<open>new Error(msg)\<close>\<close>
  "plain_error msg = Thrown None None msg"

datatype 'a api_response =
    Rejected thrown
  | Replied nat string "'a list option"

record repo_item =
  ri_id :: int
  ri_full_name :: string
  ri_html_url :: string
  ri_description :: "string option"
  ri_language :: "string option"
  ri_stargazers_count :: int
  ri_forks_count :: int
  ri_watchers_count :: int
  ri_updated_at :: string
  ri_owner :: owner_info
  ri_topics :: "string list option"
  ri_open_issues_count :: int
  ri_license_name :: "string option"

record code_item =
  ci_repository_id :: int
  ci_repository_full_name :: string
  ci_repository_updated_at :: "string option"
  ci_repository_stargazers_count :: "int option"
  ci_repository_owner :: owner_info
  ci_path :: string
  ci_sha :: string
  ci_html_url :: string
  ci_language :: "string option"

datatype content_data = TextData string | OtherData

datatype content_response =
    ContentRejected
  | ContentReplied nat string content_data

record network =
  repo_search :: "repo_item api_response"
  code_search :: "code_item api_response"
  get_contents :: "string \<Rightarrow> content_response"

definition translate_error :: "thrown \<Rightarrow> string" where
  \<comment> \<open>the catch block shared by the two fetch functions\<close>
  "translate_error e =
     (case response e of
        Some (status, data_message) \<Rightarrow>
          if status = 401 then
            ''GitHub API authentication failed. Please check your API token.''
          else if status = 403 then
            ''GitHub API rate limit exceeded. Please try again later.''
          else if status = 422 then
            ''Invalid search query. Please check your search terms.''
          else ''GitHub API error ('' @ show_nat status @ ''): '' @
               (case data_message of
                  Some m \<Rightarrow> if m \<noteq> [] then m else message e
                | None \<Rightarrow> message e)
      | None \<Rightarrow>
          if code e = Some ''ENOTFOUND'' \<or> code e = Some ''ECONNREFUSED'' then
            ''Network error. Please check your internet connection.''
          else ''Search failed: '' @ message e)"

definition or_default :: "string option \<Rightarrow> string \<Rightarrow> string" where
  \<comment> \<open>\<open>x || d\<close> on an optional string: the empty string is falsy\<close>
  "or_default x d = (case x of Some v \<Rightarrow> if v \<noteq> [] then v else d | None \<Rightarrow> d)"

definition repo_to_result :: "repo_item \<Rightarrow> SearchResult" where
  "repo_to_result item =
     \<lparr>result_id = ''repo-'' @ show_int (ri_id item),
      title = ri_full_name item,
      rtype = Repository,
      source = ri_full_name item,
      url = ri_html_url item,
      snippet = None,
      description = Some (or_default (ri_description item) ''No description available''),
      language = Some (or_default (ri_language item) ''Unknown''),
      stars = Some (ri_stargazers_count item),
      forks = Some (ri_forks_count item),
      timestamp = ri_updated_at item,
      owner = Some (ri_owner item),
      topics = Some (case ri_topics item of Some ts \<Rightarrow> ts | None \<Rightarrow> []),
      openIssues = Some (ri_open_issues_count item),
      watchers = Some (ri_watchers_count item),
      license = Some (ri_license_name item),
      path = None,
      lineNumbers = None,
      score = None,
      apiSource = None,
      hasRepoData = False\<rparr>"

definition fetchGitHubRepositories :: "network \<Rightarrow> string \<Rightarrow> string + SearchResult list" where
  \<comment> \<open>\<open>Inl msg\<close>: the promise is rejected with \<open>Error(msg)\<close>\<close>
  "fetchGitHubRepositories net query =
     (if trim query = [] then
        Inl (translate_error (plain_error ''Search query cannot be empty''))
      else
        (case repo_search net of
           Rejected e \<Rightarrow> Inl (translate_error e)
         | Replied status statusText items \<Rightarrow>
             if status \<noteq> 200 then
               Inl (translate_error (plain_error
                 (''GitHub API request failed: '' @ show_nat status @ '' '' @ statusText)))
             else
               (case items of
                  None \<Rightarrow>
                    Inl (translate_error (plain_error ''Invalid response format from GitHub API''))
                | Some its \<Rightarrow> Inr (map repo_to_result its))))"

section \<open>Code search and snippets (fetchGitHubCodeSnippets)\<close>

definition queryTerms :: "string \<Rightarrow> string list" where
  "queryTerms query = filter (\<lambda>t. 2 < length t) (split_ws (trim query))"

definition queryRegex :: "platform \<Rightarrow> string \<Rightarrow> js_error + RegExp" where
  "queryRegex env query =
     new_RegExp env
       (join ''|'' (map (\<lambda>t. ''('' @ escape_special t @ '')'') (queryTerms query))) ''i''"

fun test_lines :: "RegExp \<Rightarrow> string list \<Rightarrow> bool list \<times> RegExp" where
  \<comment> \<open>\<open>regex.test\<close> on each line in turn, on the one regular-expression object\<close>
  "test_lines r [] = ([], r)"
| "test_lines r (l # ls) =
     (case RegExp_test r l of
        (b, r') \<Rightarrow> (case test_lines r' ls of (bs, r'') \<Rightarrow> (b # bs, r'')))"

definition matchingLineIndices :: "RegExp \<Rightarrow> string list \<Rightarrow> int list" where
  "matchingLineIndices r lines =
     map int (filter (\<lambda>i. fst (test_lines r lines) ! i) [0..<length lines])"

fun snippet_loop ::
  "string list \<Rightarrow> int list \<Rightarrow> string list \<times> int list \<times> int \<Rightarrow> string list \<times> int list \<times> int" where
  \<comment> \<open>the loop over the matched lines; the state is
      \<open>(snippetLines, lineNumbers, lastLineAdded)\<close>\<close>
  "snippet_loop lines [] st = st"
| "snippet_loop lines (matchedLine # rest) (snippetLines, lineNums, lastLineAdded) =
     (let startLine = max 0 (matchedLine - 2);
          endLine = min (int (length lines) - 1) (matchedLine + 2)
      in if startLine \<le> lastLineAdded + 1 then
           snippet_loop lines rest
             (snippetLines @ map (\<lambda>i. lines ! nat i) [lastLineAdded + 1..endLine],
              lineNums @ map (\<lambda>i. i + 1) [lastLineAdded + 1..endLine],
              endLine)
         else
           (let sep = (if snippetLines \<noteq> [] then [''...''] else []);
                sepn = (if snippetLines \<noteq> [] then [- 1] else [])
            in snippet_loop lines rest
                 (snippetLines @ sep @ map (\<lambda>i. lines ! nat i) [startLine..endLine],
                  lineNums @ sepn @ map (\<lambda>i. i + 1) [startLine..endLine],
                  endLine)))"

definition code_result ::
  "platform \<Rightarrow> code_item \<Rightarrow> string \<Rightarrow> string list \<Rightarrow> int list \<Rightarrow> SearchResult" where
  \<comment> \<open>the object both branches return\<close>
  "code_result env item lang snippetLines lineNums =
     \<lparr>result_id = show_int (ci_repository_id item) @ ''-'' @ ci_sha item,
      title = ci_repository_full_name item,
      rtype = Code,
      source = ci_repository_full_name item,
      url = ci_html_url item,
      snippet = Some (join [NL] snippetLines),
      description = None,
      language = Some lang,
      stars = ci_repository_stargazers_count item,
      forks = None,
      timestamp = or_default (ci_repository_updated_at item) (clock_iso env),
      owner = Some ((ci_repository_owner item)\<lparr>owner_url := None\<rparr>),
      topics = None,
      openIssues = None,
      watchers = None,
      license = None,
      path = Some (ci_path item),
      lineNumbers = Some lineNums,
      score = None,
      apiSource = None,
      hasRepoData = False\<rparr>"

definition nth_or_undefined :: "string list \<Rightarrow> nat \<Rightarrow> string" where
  \<comment> \<open>an array element inside a template string\<close>
  "nth_or_undefined xs i = (if i < length xs then xs ! i else ''undefined'')"

definition contents_url :: "code_item \<Rightarrow> string" where
  "contents_url item =
     (let parts = split_on (CHR ''/'') (ci_repository_full_name item)
      in ''https://api.github.com/repos/'' @ nth_or_undefined parts 0 @ ''/'' @
         nth_or_undefined parts 1 @ ''/contents/'' @ ci_path item)"

definition process_code_item ::
  "platform \<Rightarrow> network \<Rightarrow> string \<Rightarrow> code_item \<Rightarrow> SearchResult option" where
  \<comment> \<open>the body of the map over the hits; \<open>None\<close> is the \<open>null\<close> of its catch block\<close>
  "process_code_item env net query item =
     (case get_contents net (contents_url item) of
        ContentRejected \<Rightarrow> None
      | ContentReplied status statusText fileContent \<Rightarrow>
          if status \<noteq> 200 then None
          else
            (let lines = (case fileContent of TextData s \<Rightarrow> split_on NL s | OtherData \<Rightarrow> []);
                 fileExt = toLowerCase (last (split_on (CHR ''.'') (ci_path item)));
                 lang = or_default (ci_language item) (or_default (Some fileExt) ''Unknown'')
             in case queryRegex env query of
                  Inl e \<Rightarrow> None
                | Inr rx \<Rightarrow>
                    (let matching = matchingLineIndices rx lines
                     in if matching = [] then
                          Some (code_result env item lang (take 10 lines) [1..10])
                        else
                          (case snippet_loop lines matching ([], [], - 1) of
                             (snippetLines, lineNums, lastLineAdded) \<Rightarrow>
                               Some (code_result env item lang snippetLines lineNums)))))"

definition fetchGitHubCodeSnippets ::
  "platform \<Rightarrow> network \<Rightarrow> string \<Rightarrow> string + SearchResult list" where
  "fetchGitHubCodeSnippets env net query =
     (if trim query = [] then
        Inl (translate_error (plain_error ''Search query cannot be empty''))
      else
        (case code_search net of
           Rejected e \<Rightarrow> Inl (translate_error e)
         | Replied status statusText items \<Rightarrow>
             if status \<noteq> 200 then
               Inl (translate_error (plain_error
                 (''GitHub API request failed: '' @ show_nat status @ '' '' @ statusText)))
             else
               (case items of
                  None \<Rightarrow>
                    Inl (translate_error (plain_error ''Invalid response format from GitHub API''))
                | Some its \<Rightarrow> Inr (List.map_filter (process_code_item env net query) its))))"

section \<open>The aggregator (fetchSearchResults) and the composite score\<close>

fun snippet_score :: "platform \<Rightarrow> string \<Rightarrow> string list \<Rightarrow> js_error + rat" where
  \<comment> \<open>the loop over the query terms on the snippet: twice the number of matches of
      \<open>new RegExp(term, 'g')\<close>, at most 20; the constructor can throw\<close>
  "snippet_score env snippetLower [] = Inr 0"
| "snippet_score env snippetLower (term # terms) =
     (case new_RegExp env term ''g'' of
        Inl e \<Rightarrow> Inl e
      | Inr r \<Rightarrow>
          (let occurrences = length (match_all_from (matcher r) snippetLower 0)
           in case snippet_score env snippetLower terms of
                Inl e \<Rightarrow> Inl e
              | Inr v \<Rightarrow> Inr (min (of_nat occurrences * 2) 20 + v)))"

text \<open>
  \<open>calculateCombinedScore\<close> adds five contributions to the score; each is a definition
  here. Numbers are exact rationals: the rounding of the floating-point operations is not
  modelled.
\<close>

definition stars_score :: "int option \<Rightarrow> rat" where
  \<comment> \<open>\<open>if (result.stars) score += Math.min(result.stars / 100, 50)\<close>\<close>
  "stars_score s =
     (case s of
        Some n \<Rightarrow> if n \<noteq> 0 then min (of_int n / 100) 50 else 0
      | None \<Rightarrow> 0)"

definition title_score :: "string \<Rightarrow> string list \<Rightarrow> rat" where
  \<comment> \<open>15 for each term the lower-cased title includes, 10 more when it equals the term\<close>
  "title_score t terms =
     (if t \<noteq> [] then
        (\<Sum>term \<leftarrow> terms.
           if str_includes (toLowerCase t) term
           then 15 + (if toLowerCase t = term then 10 else 0) else 0)
      else 0)"

definition description_score :: "string option \<Rightarrow> string list \<Rightarrow> rat" where
  \<comment> \<open>5 for each term the lower-cased description includes\<close>
  "description_score d terms =
     (case d of
        Some text \<Rightarrow>
          if text \<noteq> [] then
            (\<Sum>term \<leftarrow> terms. if str_includes (toLowerCase text) term then 5 else 0)
          else 0
      | None \<Rightarrow> 0)"

definition freshness_score :: "platform \<Rightarrow> string \<Rightarrow> rat" where
  \<comment> \<open>the bonus for a recent update; every comparison with NaN (an invalid date) is false\<close>
  "freshness_score env ts =
     (if ts \<noteq> [] then
        (case date_parse env ts of
           None \<Rightarrow> 0
         | Some updated \<Rightarrow>
             (let daysSinceUpdate = (of_int (clock_now env - updated) :: rat) / (1000 * 60 * 60 * 24)
              in if daysSinceUpdate < 7 then 10
                 else if daysSinceUpdate < 30 then 5
                 else if daysSinceUpdate < 90 then 2
                 else 0))
      else 0)"

definition calculateCombinedScore :: "platform \<Rightarrow> SearchResult \<Rightarrow> string \<Rightarrow> js_error + rat" where
  "calculateCombinedScore env result query =
     (let terms = split_ws (toLowerCase query);
          base = stars_score (stars result)
               + (if rtype result = Repository then 10 else 0)
               + (if rtype result = Code \<and> hasRepoData result then 5 else 0)
               + title_score (title result) terms
               + description_score (description result) terms
      in case (case snippet result of
                 Some text \<Rightarrow>
                   if text \<noteq> [] then snippet_score env (toLowerCase text) terms else Inr 0
               | None \<Rightarrow> Inr 0) of
           Inl e \<Rightarrow> Inl e
         | Inr from_snippet \<Rightarrow>
             Inr (base + from_snippet + freshness_score env (timestamp result)))"

definition code_api_source :: api_source where
  "code_api_source =
     \<lparr>api_name = ''GitHub Code API'', api_url = ''https://api.github.com/search/code''\<rparr>"

definition repos_api_source :: api_source where
  "repos_api_source =
     \<lparr>api_name = ''GitHub Repositories API'',
      api_url = ''https://api.github.com/search/repositories''\<rparr>"

definition repoDataMap :: "SearchResult list \<Rightarrow> (string \<rightharpoonup> SearchResult)" where
  \<comment> \<open>\<open>repoResults.forEach(repo => repoDataMap.set(repo.source, repo))\<close>\<close>
  "repoDataMap repoResults = foldl (\<lambda>m repo. m(source repo \<mapsto> repo)) Map.empty repoResults"

definition enrich :: "(string \<rightharpoonup> SearchResult) \<Rightarrow> SearchResult \<Rightarrow> SearchResult" where
  "enrich m codeResult =
     (if source codeResult \<noteq> [] then
        (case m (source codeResult) of
           Some matchingRepo \<Rightarrow>
             codeResult\<lparr>stars := stars matchingRepo,
                        forks := forks matchingRepo,
                        watchers := watchers matchingRepo,
                        openIssues := openIssues matchingRepo,
                        license := license matchingRepo,
                        topics := topics matchingRepo,
                        hasRepoData := True\<rparr>
         | None \<Rightarrow> codeResult)
      else codeResult)"

fun score_results ::
  "platform \<Rightarrow> string \<Rightarrow> SearchResult list \<Rightarrow> js_error + SearchResult list" where
  \<comment> \<open>the final map, which stores the composite score in each result\<close>
  "score_results env query [] = Inr []"
| "score_results env query (result # rest) =
     (case calculateCombinedScore env result query of
        Inl e \<Rightarrow> Inl e
      | Inr sc \<Rightarrow>
          (case score_results env query rest of
             Inl e \<Rightarrow> Inl e
           | Inr rest' \<Rightarrow> Inr (result\<lparr>score := Some sc\<rparr> # rest')))"

definition rethrow :: "string \<Rightarrow> string" where
  \<comment> \<open>the outer catch block: the message of the error it throws\<close>
  "rethrow msg =
     (if msg \<noteq> [] then msg
      else ''An unexpected error occurred while searching. Please try again.'')"

definition settled_value :: "string + SearchResult list \<Rightarrow> SearchResult list" where
  "settled_value r = (case r of Inr v \<Rightarrow> v | Inl reason \<Rightarrow> [])"

definition settled_error :: "string \<Rightarrow> string + SearchResult list \<Rightarrow> string list" where
  "settled_error label r = (case r of Inr v \<Rightarrow> [] | Inl reason \<Rightarrow> [label @ '': '' @ reason])"

definition combine :: "SearchResult list \<Rightarrow> SearchResult list \<Rightarrow> SearchResult list" where
  \<comment> \<open>source attribution, enrichment and the merge order\<close>
  "combine githubRepos codeSnippets =
     (let repoResults = map (\<lambda>repo. repo\<lparr>apiSource := Some repos_api_source\<rparr>) githubRepos;
          codeResults = map (\<lambda>c. c\<lparr>apiSource := Some code_api_source\<rparr>) codeSnippets;
          enrichedCodeResults = map (enrich (repoDataMap repoResults)) codeResults
      in take 3 repoResults @ enrichedCodeResults @ drop 3 repoResults)"

definition fetchSearchResults ::
  "platform \<Rightarrow> network \<Rightarrow> string \<Rightarrow> string + SearchResult list" where
  \<comment> \<open>\<open>Inl msg\<close>: the promise is rejected with \<open>Error(msg)\<close>\<close>
  "fetchSearchResults env net query =
     (if trim query = [] then Inl (rethrow ''Search query cannot be empty'')
      else
        (let r0 = fetchGitHubRepositories net query;
             r1 = fetchGitHubCodeSnippets env net query;
             githubRepos = settled_value r0;
             codeSnippets = settled_value r1;
             errors = settled_error ''Repository search'' r0 @ settled_error ''Code search'' r1
         in if githubRepos = [] \<and> codeSnippets = [] then
              (if errors \<noteq> [] then Inl (rethrow (''Search failed: '' @ join ''; '' errors))
               else Inl (rethrow
                 ''No results found for your search query. Try different search terms.''))
            else
              (case score_results env query (combine githubRepos codeSnippets) of
                 Inl (SyntaxError msg) \<Rightarrow> Inl (rethrow msg)
               | Inr combinedResults \<Rightarrow> Inr combinedResults)))"

section \<open>The result list (ResultsList.tsx, CodeBlock.tsx)\<close>

record SearchOptions =
  matchWholeWord :: bool
  matchCase :: bool
  useRegex :: bool
  highlightMatchesOnly :: bool

definition search_pattern :: "SearchOptions \<Rightarrow> string \<Rightarrow> string" where
  \<comment> \<open>the pattern \<open>createSearchRegex\<close> builds before it calls \<open>new RegExp\<close>\<close>
  "search_pattern opts query =
     (if useRegex opts then query
      else
        (let escaped = escape_special query;
             bounded = (if matchWholeWord opts then [BSL, CHR ''b''] @ escaped @ [BSL, CHR ''b'']
                        else escaped)
         in if \<not> matchWholeWord opts then
              (let terms = filter (\<lambda>t. 0 < length t) (split_ws bounded)
               in if 1 < length terms then ''('' @ join ''|'' terms @ '')'' else bounded)
            else bounded))"

definition createSearchRegex_try :: "platform \<Rightarrow> SearchOptions \<Rightarrow> string \<Rightarrow> js_error + RegExp" where
  \<comment> \<open>the try block\<close>
  "createSearchRegex_try env opts query =
     new_RegExp env (search_pattern opts query) (if matchCase opts then ''g'' else ''gi'')"

definition createSearchRegex ::
  "platform \<Rightarrow> SearchOptions \<Rightarrow> string \<Rightarrow> js_error + RegExp option" where
  \<comment> \<open>\<open>Inl\<close>: an error leaves the function; \<open>Inr None\<close>: it returns \<open>null\<close>\<close>
  "createSearchRegex env opts query =
     (if trim query = [] then Inr None
      else
        (case createSearchRegex_try env opts query of
           Inl e \<Rightarrow> Inr None
         | Inr r \<Rightarrow> Inr (Some r)))"

definition createHighlightPattern :: "platform \<Rightarrow> string \<Rightarrow> js_error + RegExp option" where
  "createHighlightPattern env query =
     (if trim query = [] then Inr None
      else
        (case new_RegExp env (''('' @ escape_special (trim query) @ '')'') ''gi'' of
           Inl e \<Rightarrow> Inr None
         | Inr r \<Rightarrow> Inr (Some r)))"

definition MARK_OPEN :: string where
  "MARK_OPEN =
     ''<mark class='' @ [char_of (34::nat)] @
     ''bg-yellow-200 dark:bg-yellow-900/50 dark:text-yellow-200 rounded-sm px-0.5'' @
     [char_of (34::nat)] @ ''>''"

definition MARK_CLOSE :: string where
  "MARK_CLOSE = ''</mark>''"

fun splice_marks :: "string \<Rightarrow> nat \<Rightarrow> (nat \<times> nat) list \<Rightarrow> string" where
  \<comment> \<open>the result string of \<open>replace\<close>: each match wrapped, the text between kept\<close>
  "splice_marks s pos [] = drop pos s"
| "splice_marks s pos ((p, l) # ms) =
     (if pos \<le> p then
        take (p - pos) (drop pos s) @ MARK_OPEN @ take l (drop p s) @ MARK_CLOSE @
        splice_marks s (p + l) ms
      else splice_marks s pos ms)"

definition replace_with_marks :: "RegExp \<Rightarrow> string \<Rightarrow> string \<times> RegExp" where
  \<comment> \<open>\<open>s.replace(regex, '<mark ...>$&</mark>')\<close>\<close>
  "replace_with_marks r s =
     (if global r then
        (splice_marks s 0 (match_all_from (matcher r) s 0), r\<lparr>lastIndex := 0\<rparr>)
      else
        (case search_from (matcher r) s 0 of
           None \<Rightarrow> (s, r)
         | Some m \<Rightarrow> (splice_marks s 0 [m], r)))"

datatype rendered_line =
    Separator
  | ContentLine (line_number: "int option") (is_matching: bool) (html: string)

definition nth_opt :: "'a list \<Rightarrow> nat \<Rightarrow> 'a option" where
  \<comment> \<open>\<open>xs[i]\<close>, \<open>undefined\<close> out of range\<close>
  "nth_opt xs i = (if i < length xs then Some (xs ! i) else None)"

fun process_lines ::
  "SearchOptions \<Rightarrow> int list \<Rightarrow> RegExp option \<Rightarrow> nat \<Rightarrow> string list
   \<Rightarrow> rendered_line list \<times> RegExp option" where
  \<comment> \<open>the map over the lines followed by \<open>filter(Boolean)\<close>; the regular-expression
      object is the one shared by all iterations\<close>
  "process_lines opts lineNums rx idx [] = ([], rx)"
| "process_lines opts lineNums rx idx (line # rest) =
     (if nth_opt lineNums idx = Some (- 1) then
        (case process_lines opts lineNums rx (Suc idx) rest of
           (out, rx') \<Rightarrow> (Separator # out, rx'))
      else
        (case (case rx of
                 Some r \<Rightarrow> (case RegExp_test r line of (b, r') \<Rightarrow> (b, Some r'))
               | None \<Rightarrow> (False, None)) of
           (isMatchingLine, rx1) \<Rightarrow>
             if highlightMatchesOnly opts \<and> \<not> isMatchingLine then
               process_lines opts lineNums rx1 (Suc idx) rest
             else
               (case (case rx1 of
                        Some r \<Rightarrow>
                          if isMatchingLine then
                            (case replace_with_marks (r\<lparr>lastIndex := 0\<rparr>) line of
                               (h, r') \<Rightarrow> (h, Some r'))
                          else (line, rx1)
                      | None \<Rightarrow> (line, rx1)) of
                  (highlightedLine, rx2) \<Rightarrow>
                    (case process_lines opts lineNums rx2 (Suc idx) rest of
                       (out, rx') \<Rightarrow>
                         (ContentLine (nth_opt lineNums idx) isMatchingLine highlightedLine # out,
                          rx')))))"

fun count_matching ::
  "int list \<Rightarrow> RegExp \<Rightarrow> nat \<Rightarrow> string list \<Rightarrow> nat" where
  \<comment> \<open>\<open>lines.filter((line, idx) => lineNumbers[idx] !== -1 && searchRegex.test(line)).length\<close>\<close>
  "count_matching lineNums r idx [] = 0"
| "count_matching lineNums r idx (line # rest) =
     (if nth_opt lineNums idx = Some (- 1) then count_matching lineNums r (Suc idx) rest
      else
        (case RegExp_test r line of
           (b, r') \<Rightarrow> (if b then 1 else 0) + count_matching lineNums r' (Suc idx) rest))"

fun inline_lines :: "RegExp \<Rightarrow> string list \<Rightarrow> string list" where
  \<comment> \<open>the matching lines of a snippet without line numbers, highlighted\<close>
  "inline_lines r [] = []"
| "inline_lines r (line # rest) =
     (case RegExp_test r line of
        (b, r') \<Rightarrow>
          if \<not> b then inline_lines r' rest
          else (case replace_with_marks (r'\<lparr>lastIndex := 0\<rparr>) line of
                  (h, r'') \<Rightarrow> h # inline_lines r'' rest))"

datatype snippet_view =
    NumberedView "rendered_line list" nat
  | PlainView string
  | MatchingLinesView "string list"
  | HighlightedView string

text \<open>
  What the component shows for a snippet: with line numbers, the processed lines (the
  placeholder "No matching lines found" when there are none) and the match count of the
  footer; without line numbers, the raw text when there is no matcher, the highlighted
  matching lines, or the whole text highlighted.
\<close>

definition getEnhancedCodeSnippet ::
  "platform \<Rightarrow> SearchOptions \<Rightarrow> SearchResult \<Rightarrow> string \<Rightarrow> js_error + snippet_view option" where
  "getEnhancedCodeSnippet env opts result query =
     (case snippet result of
        None \<Rightarrow> Inr None
      | Some codeContent \<Rightarrow>
          if codeContent = [] then Inr None
          else
            (let lineNums = (case lineNumbers result of Some ns \<Rightarrow> ns | None \<Rightarrow> [])
             in case createSearchRegex env opts query of
                  Inl e \<Rightarrow> Inl e
                | Inr searchRegex \<Rightarrow>
                    if 0 < length lineNums then
                      (let lines = split_on NL codeContent
                       in case process_lines opts lineNums searchRegex 0 lines of
                            (processedLines, rx') \<Rightarrow>
                              Inr (Some (NumberedView processedLines
                                (case rx' of
                                   Some r \<Rightarrow> count_matching lineNums r 0 lines
                                 | None \<Rightarrow> 0))))
                    else
                      (case createSearchRegex env opts query of
                         Inl e \<Rightarrow> Inl e
                       | Inr None \<Rightarrow> Inr (Some (PlainView codeContent))
                       | Inr (Some r) \<Rightarrow>
                           if highlightMatchesOnly opts then
                             Inr (Some (MatchingLinesView (inline_lines r (split_on NL codeContent))))
                           else
                             Inr (Some (HighlightedView (fst (replace_with_marks r codeContent)))))))"






section \<open>A concrete platform for the examples\<close>

text \<open>
  The date parser of the examples reads the timestamps the upstream API emits,
  \<open>YYYY-MM-DDTHH:MM:SSZ\<close>, and those \<open>toISOString\<close> writes, with the milliseconds,
  \<open>YYYY-MM-DDTHH:MM:SS.sssZ\<close>; it reports every other string as an invalid date. The
  clock stands at 2025-01-01T00:00:00Z.
\<close>

definition digit_val :: "char \<Rightarrow> nat option" where
  "digit_val c =
     (let n = (of_char c :: nat) in if 48 \<le> n \<and> n \<le> 57 then Some (n - 48) else None)"

fun number_val :: "nat \<Rightarrow> string \<Rightarrow> nat option" where
  "number_val acc [] = Some acc"
| "number_val acc (c # cs) =
     (case digit_val c of None \<Rightarrow> None | Some d \<Rightarrow> number_val (acc * 10 + d) cs)"

definition is_leap :: "nat \<Rightarrow> bool" where
  "is_leap y = ((y mod 4 = 0 \<and> y mod 100 \<noteq> 0) \<or> y mod 400 = 0)"

definition days_in_month :: "nat \<Rightarrow> nat \<Rightarrow> nat" where
  "days_in_month y m =
     (if m = 2 then (if is_leap y then 29 else 28)
      else if m = 4 \<or> m = 6 \<or> m = 9 \<or> m = 11 then 30 else 31)"

definition days_from_civil :: "int \<Rightarrow> int \<Rightarrow> int \<Rightarrow> int" where
  \<comment> \<open>days from 1970-01-01 to the given day of the proleptic Gregorian calendar\<close>
  "days_from_civil y m d =
     (let y' = (if m \<le> 2 then y - 1 else y);
          era = y' div 400;
          yoe = y' mod 400;
          doy = (153 * (if 2 < m then m - 3 else m + 9) + 2) div 5 + d - 1;
          doe = yoe * 365 + yoe div 4 - yoe div 100 + doy
      in era * 146097 + doe - 719468)"

definition iso_millis :: "string \<Rightarrow> nat option" where
  \<comment> \<open>what follows the seconds: \<open>Z\<close>, or \<open>.sssZ\<close>\<close>
  "iso_millis s =
     (if s = ''Z'' then Some 0
      else if length s = 5 \<and> s ! 0 = CHR ''.'' \<and> s ! 4 = CHR ''Z''
      then number_val 0 (take 3 (drop 1 s))
      else None)"

definition iso_parse :: "string \<Rightarrow> int option" where
  "iso_parse s =
     (if 19 \<le> length s \<and> s ! 4 = CHR ''-'' \<and> s ! 7 = CHR ''-'' \<and> s ! 10 = CHR ''T'' \<and>
         s ! 13 = CHR '':'' \<and> s ! 16 = CHR '':'' then
        (case (number_val 0 (take 4 s), number_val 0 (take 2 (drop 5 s)),
               number_val 0 (take 2 (drop 8 s)), number_val 0 (take 2 (drop 11 s)),
               number_val 0 (take 2 (drop 14 s)), number_val 0 (take 2 (drop 17 s)),
               iso_millis (drop 19 s)) of
           (Some y, Some mo, Some d, Some h, Some mi, Some se, Some ms) \<Rightarrow>
             if 1 \<le> mo \<and> mo \<le> 12 \<and> 1 \<le> d \<and> d \<le> days_in_month y mo \<and>
                h \<le> 23 \<and> mi \<le> 59 \<and> se \<le> 59 then
               Some ((((days_from_civil (int y) (int mo) (int d) * 24 + int h) * 60 + int mi) * 60
                      + int se) * 1000 + int ms)
             else None
         | _ \<Rightarrow> None)
      else None)"

definition js_env :: platform where
  "js_env =
     \<lparr>regexp_compile = js_compile,
      syntax_error_text = js_syntax_error_text,
      date_parse = iso_parse,
      clock_now = 1735689600000,
      clock_iso = ''2025-01-01T00:00:00.000Z''\<rparr>"

lemma js_env_clock: "date_parse js_env (clock_iso js_env) = Some (clock_now js_env)"
  by code_simp

lemma example_patterns_supported:
  "list_all rx_supported
     [''foo'', ''demo'', ''c++'', ''(foo)'', ''(demo)'', ''(delta)'',
      ''('' @ escape_special ''c++'' @ '')'']"
  by code_simp

definition example_owner :: owner_info where
  "example_owner =
     \<lparr>login = ''octo'', avatar_url = ''https://avatars.example/octo'', owner_url = None\<rparr>"

definition example_hit :: "string \<Rightarrow> code_item" where
  \<comment> \<open>a code-search hit in the repository octo/demo, by its path\<close>
  "example_hit p =
     \<lparr>ci_repository_id = 7,
      ci_repository_full_name = ''octo/demo'',
      ci_repository_updated_at = Some ''2024-12-30T00:00:00Z'',
      ci_repository_stargazers_count = None,
      ci_repository_owner = example_owner,
      ci_path = p,
      ci_sha = ''abc'',
      ci_html_url = ''https://github.com/octo/demo/blob/main/'' @ p,
      ci_language = None\<rparr>"

definition example_repo :: "string \<Rightarrow> int \<Rightarrow> int \<Rightarrow> repo_item" where
  \<comment> \<open>a repository hit, by its full name, its identifier and its stars\<close>
  "example_repo name ident n =
     \<lparr>ri_id = ident,
      ri_full_name = name,
      ri_html_url = ''https://github.com/'' @ name,
      ri_description = None,
      ri_language = Some ''TypeScript'',
      ri_stargazers_count = n,
      ri_forks_count = 0,
      ri_watchers_count = 0,
      ri_updated_at = ''2024-06-01T00:00:00Z'',
      ri_owner = example_owner,
      ri_topics = None,
      ri_open_issues_count = 0,
      ri_license_name = None\<rparr>"

definition example_net :: "repo_item list \<Rightarrow> code_item list \<Rightarrow> string \<Rightarrow> network" where
  \<comment> \<open>both searches answer; the file \<open>src/a.ts\<close> of octo/demo has the given content and
      no other file can be fetched\<close>
  "example_net repos hits content =
     \<lparr>repo_search = Replied 200 ''OK'' (Some repos),
      code_search = Replied 200 ''OK'' (Some hits),
      get_contents =
        (\<lambda>u. if u = ''https://api.github.com/repos/octo/demo/contents/src/a.ts''
             then ContentReplied 200 ''OK'' (TextData content) else ContentRejected)\<rparr>"

definition failing_net :: network where
  \<comment> \<open>the repository search is refused (401), the code search does not reach the host\<close>
  "failing_net =
     \<lparr>repo_search =
        Rejected (Thrown (Some (401, Some ''Bad credentials'')) (Some ''ERR_BAD_REQUEST'')
                    ''Request failed with status code 401''),
      code_search =
        Rejected (Thrown None (Some ''ENOTFOUND'') ''getaddrinfo ENOTFOUND api.github.com''),
      get_contents = (\<lambda>u. ContentRejected)\<rparr>"

section \<open>A failed content fetch drops the hit and nothing else\<close>

definition content_fetch_fails :: "network \<Rightarrow> code_item \<Rightarrow> bool" where
  \<comment> \<open>the request for the file is rejected, or answered with a status other than 200\<close>
  "content_fetch_fails net item =
     (case get_contents net (contents_url item) of
        ContentRejected \<Rightarrow> True
      | ContentReplied status statusText fileContent \<Rightarrow> status \<noteq> 200)"

lemma process_failed_item:
  "content_fetch_fails net item \<Longrightarrow> process_code_item env net query item = None"
  by (auto simp: content_fetch_fails_def process_code_item_def split: content_response.splits)

lemma process_fetched_item:
  assumes "\<not> content_fetch_fails net item" and "queryRegex env query = Inr rx"
  shows "process_code_item env net query item \<noteq> None"
  using assms
  by (auto simp: content_fetch_fails_def process_code_item_def Let_def
      split: content_response.splits prod.splits)

lemma queryRegex_js_env:
  "(\<exists>rx. queryRegex js_env query = Inr rx) \<longleftrightarrow>
   parse_rx [] [] [] NoAtom
     (join ''|'' (map (\<lambda>t. ''('' @ escape_special t @ '')'') (queryTerms query))) \<noteq> None"
  by (simp add: queryRegex_def new_RegExp_def js_env_def js_compile_def split: option.split)

lemma special_chars_facts:
  "\<forall>c \<in> special_chars. \<not> is_alnum c \<and> c \<noteq> CHR ''b'' \<and> c \<noteq> CHR ''B''"
  unfolding special_chars_def by code_simp

lemma BSL_facts:
  "BSL \<noteq> CHR ''(''" "BSL \<noteq> CHR '')''" "BSL \<noteq> CHR ''|''" "BSL \<noteq> CHR ''*''"
  "BSL \<noteq> CHR ''+''" "BSL \<noteq> CHR ''?''" "BSL \<noteq> CHR ''^''" "BSL \<noteq> CHR ''$''"
  "BSL \<noteq> CHR ''.''"
  by code_simp+

lemma parse_rx_escaped_char:
  assumes "c \<in> special_chars"
  shows "parse_rx stack alts terms q (BSL # c # rest) =
           parse_rx stack alts (RChar c # terms) CanQuantify rest"
  using assms special_chars_facts BSL_facts by auto

lemma parse_rx_plain_char:
  assumes "c \<notin> special_chars"
  shows "parse_rx stack alts terms q (c # rest) =
           parse_rx stack alts (RChar c # terms) CanQuantify rest"
  using assms by (auto simp: special_chars_def)

lemma parse_rx_escaped:
  "\<exists>terms' q'. \<forall>rest. parse_rx stack alts terms q (escape_special t @ rest) =
                         parse_rx stack alts terms' q' rest"
proof (induction t arbitrary: terms q)
  case Nil
  show ?case by (auto simp: escape_special_def)
next
  case (Cons c t)
  obtain terms' q' where
    ih: "\<forall>rest. parse_rx stack alts (RChar c # terms) CanQuantify (escape_special t @ rest) =
                 parse_rx stack alts terms' q' rest"
    using Cons.IH by blast
  have "\<forall>rest. parse_rx stack alts terms q (escape_special (c # t) @ rest) =
               parse_rx stack alts terms' q' rest"
  proof (cases "c \<in> special_chars")
    case True
    then show ?thesis
      using ih parse_rx_escaped_char [OF True]
      by (simp add: escape_special_def del: parse_rx.simps)
  next
    case False
    then show ?thesis
      using ih parse_rx_plain_char [OF False]
      by (simp add: escape_special_def del: parse_rx.simps)
  qed
  then show ?case by blast
qed

lemma escaped_head:
  "\<exists>d ds. escape_special t @ CHR '')'' # rest = d # ds \<and> d \<noteq> CHR ''?''"
proof (cases t)
  case Nil
  then show ?thesis by (simp add: escape_special_def)
next
  case (Cons c t')
  show ?thesis
  proof (cases "c \<in> special_chars")
    case True
    with Cons show ?thesis by (simp add: escape_special_def BSL_facts)
  next
    case False
    then have "c \<noteq> CHR ''?''" by (auto simp: special_chars_def)
    with Cons False show ?thesis by (simp add: escape_special_def)
  qed
qed

lemma parse_rx_group:
  "\<exists>g. \<forall>rest. parse_rx [] alts terms q (''('' @ escape_special t @ '')'' @ rest) =
                parse_rx [] alts (g # terms) CanQuantify rest"
proof -
  obtain terms' q' where
    inner: "\<forall>rest. parse_rx [(alts, terms)] [] [] NoAtom (escape_special t @ rest) =
                    parse_rx [(alts, terms)] [] terms' q' rest"
    using parse_rx_escaped by blast
  have "\<forall>rest. parse_rx [] alts terms q (''('' @ escape_special t @ '')'' @ rest) =
               parse_rx [] alts (close_group [] terms' # terms) CanQuantify rest"
  proof
    fix rest
    obtain d ds where d: "escape_special t @ CHR '')'' # rest = d # ds" "d \<noteq> CHR ''?''"
      using escaped_head by blast
    have "parse_rx [] alts terms q (CHR ''('' # d # ds) =
          parse_rx [(alts, terms)] [] [] NoAtom (d # ds)"
      using d(2) by simp
    also have "\<dots> = parse_rx [(alts, terms)] [] [] NoAtom (escape_special t @ CHR '')'' # rest)"
      by (simp only: d(1))
    also have "\<dots> = parse_rx [(alts, terms)] [] terms' q' (CHR '')'' # rest)"
      using inner by blast
    also have "\<dots> = parse_rx [] alts (close_group [] terms' # terms) CanQuantify rest"
      by simp
    finally show "parse_rx [] alts terms q (''('' @ escape_special t @ '')'' @ rest) =
                  parse_rx [] alts (close_group [] terms' # terms) CanQuantify rest"
      by (simp only: d(1) append_Cons append_Nil)
  qed
  then show ?thesis by blast
qed

lemma parse_rx_alternatives:
  "\<exists>r. parse_rx [] alts terms q
          (join ''|'' (map (\<lambda>t. ''('' @ escape_special t @ '')'') ts)) = Some r"
proof (induction ts arbitrary: alts terms q)
  case Nil
  show ?case by simp
next
  case (Cons t ts)
  obtain g where
    g: "\<forall>rest. parse_rx [] alts terms q (''('' @ escape_special t @ '')'' @ rest) =
               parse_rx [] alts (g # terms) CanQuantify rest"
    using parse_rx_group by blast
  show ?case
  proof (cases ts)
    case Nil
    from g have "parse_rx [] alts terms q (''('' @ escape_special t @ '')'' @ []) =
                 parse_rx [] alts (g # terms) CanQuantify []" by blast
    with Nil show ?thesis by simp
  next
    case (Cons t' ts')
    let ?J = "join ''|'' (map (\<lambda>t. ''('' @ escape_special t @ '')'') ts)"
    from g have "parse_rx [] alts terms q (''('' @ escape_special t @ '')'' @ (CHR ''|'' # ?J)) =
                 parse_rx [] alts (g # terms) CanQuantify (CHR ''|'' # ?J)" by blast
    also have "\<dots> = parse_rx [] (mk_seq (g # terms) # alts) [] NoAtom ?J" by simp
    finally have "parse_rx [] alts terms q
                    (''('' @ escape_special t @ '')'' @ (CHR ''|'' # ?J)) =
                  parse_rx [] (mk_seq (g # terms) # alts) [] NoAtom ?J" .
    moreover obtain r where "parse_rx [] (mk_seq (g # terms) # alts) [] NoAtom ?J = Some r"
      using Cons.IH by blast
    ultimately show ?thesis using Cons by simp
  qed
qed

lemma queryRegex_js_env_compiles: "\<exists>rx. queryRegex js_env query = Inr rx"
  using parse_rx_alternatives [of "[]" "[]" NoAtom "queryTerms query"]
  by (simp add: queryRegex_js_env)

lemma process_fetched_item_js_env:
  "\<not> content_fetch_fails net item \<Longrightarrow> process_code_item js_env net query item \<noteq> None"
  using queryRegex_js_env_compiles process_fetched_item by blast

lemma map_filter_drop_None:
  "(\<And>x. x \<in> set xs \<Longrightarrow> \<not> P x \<Longrightarrow> f x = None) \<Longrightarrow>
   List.map_filter f xs = List.map_filter f (filter P xs)"
  by (induction xs) (auto simp: List.map_filter_simps split: option.splits)

text \<open>
  Claim C10. When the content fetch of a hit fails, \<open>fetchGitHubCodeSnippets\<close> still
  returns: the result is the list obtained from the hits whose fetch succeeded, in their
  order, as if the failed hits had not been found. A failed hit yields no entry, and
  (the query pattern compiling) each hit whose fetch succeeded yields one. The pattern is
  built from the escaped terms of the query and always compiles in the pattern language
  modelled here (\<open>queryRegex_js_env_compiles\<close>).
\<close>

theorem failed_content_fetch_is_omitted:
  assumes "trim query \<noteq> []"
    and "code_search net = Replied 200 statusText (Some items)"
  shows "fetchGitHubCodeSnippets env net query =
           Inr (List.map_filter (process_code_item env net query)
                  (filter (\<lambda>item. \<not> content_fetch_fails net item) items))
         \<and> (\<forall>item \<in> set items. content_fetch_fails net item \<longrightarrow>
                process_code_item env net query item = None)
         \<and> (\<forall>item \<in> set items. \<not> content_fetch_fails net item \<longrightarrow>
                (\<exists>rx. queryRegex env query = Inr rx) \<longrightarrow>
                process_code_item env net query item \<noteq> None)"
proof -
  have "List.map_filter (process_code_item env net query) items =
        List.map_filter (process_code_item env net query)
          (filter (\<lambda>item. \<not> content_fetch_fails net item) items)"
    by (rule map_filter_drop_None) (simp add: process_failed_item)
  with assms show ?thesis
    by (auto simp: fetchGitHubCodeSnippets_def process_failed_item
        dest: process_fetched_item)
qed

theorem failed_content_fetch_is_omitted_witness:
  "trim ''foo'' \<noteq> []
   \<and> code_search (example_net [] [example_hit ''src/a.ts'', example_hit ''src/b.ts''] ''foo bar'')
       = Replied 200 ''OK'' (Some [example_hit ''src/a.ts'', example_hit ''src/b.ts''])
   \<and> content_fetch_fails
         (example_net [] [example_hit ''src/a.ts'', example_hit ''src/b.ts''] ''foo bar'')
         (example_hit ''src/b.ts'')
   \<and> fetchGitHubCodeSnippets js_env
         (example_net [] [example_hit ''src/a.ts'', example_hit ''src/b.ts''] ''foo bar'') ''foo''
       = Inr (List.map_filter
                (process_code_item js_env
                   (example_net [] [example_hit ''src/a.ts'', example_hit ''src/b.ts''] ''foo bar'')
                   ''foo'')
                [example_hit ''src/a.ts''])
   \<and> process_code_item js_env
         (example_net [] [example_hit ''src/a.ts'', example_hit ''src/b.ts''] ''foo bar'') ''foo''
         (example_hit ''src/b.ts'') = None
   \<and> process_code_item js_env
         (example_net [] [example_hit ''src/a.ts'', example_hit ''src/b.ts''] ''foo bar'') ''foo''
         (example_hit ''src/a.ts'') \<noteq> None"
proof -
  let ?items = "[example_hit ''src/a.ts'', example_hit ''src/b.ts'']"
  let ?net = "example_net [] ?items ''foo bar''"
  have q: "trim ''foo'' \<noteq> []" by code_simp
  have r: "code_search ?net = Replied 200 ''OK'' (Some ?items)" by (simp add: example_net_def)
  have bad: "content_fetch_fails ?net (example_hit ''src/b.ts'')" by code_simp
  have good: "\<not> content_fetch_fails ?net (example_hit ''src/a.ts'')" by code_simp
  have "parse_rx [] [] [] NoAtom
          (join ''|'' (map (\<lambda>t. ''('' @ escape_special t @ '')'') (queryTerms ''foo''))) \<noteq> None"
    by code_simp
  then have rx: "\<exists>rx. queryRegex js_env ''foo'' = Inr rx"
    by (simp add: queryRegex_js_env)
  from failed_content_fetch_is_omitted [OF q r, of js_env] bad good rx
  show ?thesis using q r by simp
qed

section \<open>The composite score grows with the stars\<close>

lemma stars_score_mono: "a \<le> b \<Longrightarrow> stars_score (Some a) \<le> stars_score (Some b)"
  by (auto simp: stars_score_def min_def divide_right_mono)

text \<open>
  Claim C9. With the query and every other field of the result fixed,
  \<open>calculateCombinedScore\<close> is monotonically non-decreasing in \<open>stars\<close>: for
  \<open>s1 \<le> s2\<close> either both calls return and the first score is at most the second, or
  both throw the same error (raised for a query term, whatever the stars).
\<close>

theorem calculateCombinedScore_mono_stars:
  assumes "s1 \<le> s2"
  shows "(case (calculateCombinedScore env (result\<lparr>stars := Some s1\<rparr>) query,
               calculateCombinedScore env (result\<lparr>stars := Some s2\<rparr>) query) of
            (Inr v1, Inr v2) \<Rightarrow> v1 \<le> v2
          | (Inl e1, Inl e2) \<Rightarrow> e1 = e2
          | _ \<Rightarrow> False)"
  using stars_score_mono [OF assms]
  by (auto simp: calculateCombinedScore_def Let_def split: sum.splits option.splits)

theorem calculateCombinedScore_mono_stars_witness:
  "(120::int) \<le> 7000
   \<and> (case (calculateCombinedScore js_env
               ((repo_to_result (example_repo ''octo/demo'' 1 0))\<lparr>stars := Some 120\<rparr>) ''demo'',
             calculateCombinedScore js_env
               ((repo_to_result (example_repo ''octo/demo'' 1 0))\<lparr>stars := Some 7000\<rparr>) ''demo'') of
          (Inr v1, Inr v2) \<Rightarrow> v1 \<le> v2
        | (Inl e1, Inl e2) \<Rightarrow> e1 = e2
        | _ \<Rightarrow> False)"
proof -
  have h: "(120::int) \<le> 7000" by simp
  from calculateCombinedScore_mono_stars [OF h] h show ?thesis by blast
qed

section \<open>Rejection when nothing was found\<close>

datatype failure_kind =
  AuthenticationFailed | RateLimited | InvalidQuery | ApiError | NetworkUnreachable | OtherFailure

definition failure_kind :: "thrown \<Rightarrow> failure_kind" where
  \<comment> \<open>the branch of the catch block an error takes\<close>
  "failure_kind e =
     (case response e of
        Some (status, data_message) \<Rightarrow>
          if status = 401 then AuthenticationFailed
          else if status = 403 then RateLimited
          else if status = 422 then InvalidQuery
          else ApiError
      | None \<Rightarrow>
          if code e = Some ''ENOTFOUND'' \<or> code e = Some ''ECONNREFUSED'' then NetworkUnreachable
          else OtherFailure)"

definition message_tag :: "string \<Rightarrow> char \<times> char" where
  "message_tag msg = (msg ! 0, msg ! 11)"

lemma translate_error_tag:
  "message_tag (translate_error e) =
     (case failure_kind e of
        AuthenticationFailed \<Rightarrow> (CHR ''G'', CHR ''a'')
      | RateLimited \<Rightarrow> (CHR ''G'', CHR ''r'')
      | InvalidQuery \<Rightarrow> (CHR ''I'', CHR ''r'')
      | ApiError \<Rightarrow> (CHR ''G'', CHR ''e'')
      | NetworkUnreachable \<Rightarrow> (CHR ''N'', CHR ''o'')
      | OtherFailure \<Rightarrow> (CHR ''S'', CHR ''e''))"
  by (cases e) (simp add: translate_error_def failure_kind_def message_tag_def
      split: option.split prod.split)

lemma translate_error_distinct:
  assumes "failure_kind e \<noteq> failure_kind e'"
  shows "translate_error e \<noteq> translate_error e'"
proof
  assume "translate_error e = translate_error e'"
  then have "message_tag (translate_error e) = message_tag (translate_error e')" by simp
  with assms show False
    unfolding translate_error_tag
    by (cases "failure_kind e"; cases "failure_kind e'") simp_all
qed

lemma translate_error_nonempty: "translate_error e \<noteq> []"
  by (simp add: translate_error_def split: option.split prod.split)

lemma translated: "Inl (translate_error e) = Inl m \<Longrightarrow> \<exists>e. m = translate_error e"
  by blast

lemma upstream_failure_message_repos:
  assumes "fetchGitHubRepositories net query = Inl m"
  shows "\<exists>e. m = translate_error e"
proof (cases "trim query = []")
  case True
  with assms show ?thesis
    by (simp add: fetchGitHubRepositories_def translated)
next
  case False
  show ?thesis
  proof (cases "repo_search net")
    case (Rejected e)
    with assms False show ?thesis
      by (simp add: fetchGitHubRepositories_def translated)
  next
    case (Replied status statusText items)
    with assms False show ?thesis
      by (cases "status = 200"; cases items)
         (simp_all add: fetchGitHubRepositories_def translated)
  qed
qed

lemma upstream_failure_message_code:
  assumes "fetchGitHubCodeSnippets env net query = Inl m"
  shows "\<exists>e. m = translate_error e"
proof (cases "trim query = []")
  case True
  with assms show ?thesis
    by (simp add: fetchGitHubCodeSnippets_def translated)
next
  case False
  show ?thesis
  proof (cases "code_search net")
    case (Rejected e)
    with assms False show ?thesis
      by (simp add: fetchGitHubCodeSnippets_def translated)
  next
    case (Replied status statusText items)
    with assms False show ?thesis
      by (cases "status = 200"; cases items)
         (simp_all add: fetchGitHubCodeSnippets_def translated)
  qed
qed

lemma rejected_request_message:
  "trim query \<noteq> [] \<Longrightarrow> repo_search net = Rejected e \<Longrightarrow>
     fetchGitHubRepositories net query = Inl (translate_error e)"
  "trim query \<noteq> [] \<Longrightarrow> code_search net = Rejected e \<Longrightarrow>
     fetchGitHubCodeSnippets env net query = Inl (translate_error e)"
  by (simp_all add: fetchGitHubRepositories_def fetchGitHubCodeSnippets_def)


lemma rejects_with:
  assumes "(\<exists>m0 m1. fetchGitHubRepositories net query = Inl m0 \<and>
                    fetchGitHubCodeSnippets env net query = Inl m1)
           \<or> (fetchGitHubRepositories net query = Inr [] \<and>
              fetchGitHubCodeSnippets env net query = Inr [])"
  shows "fetchSearchResults env net query =
           Inl (if trim query = [] then ''Search query cannot be empty''
                else (case (fetchGitHubRepositories net query,
                            fetchGitHubCodeSnippets env net query) of
                        (Inl m0, Inl m1) \<Rightarrow>
                          ''Search failed: Repository search: '' @ m0 @ ''; Code search: '' @ m1
                      | _ \<Rightarrow>
                          ''No results found for your search query. Try different search terms.''))"
proof (cases "trim query = []")
  case True
  then show ?thesis by (simp add: fetchSearchResults_def rethrow_def)
next
  case False
  from assms show ?thesis
  proof (elim disjE exE conjE)
    fix m0 m1
    assume "fetchGitHubRepositories net query = Inl m0"
      and "fetchGitHubCodeSnippets env net query = Inl m1"
    with False show ?thesis
      by (simp add: fetchSearchResults_def rethrow_def settled_value_def settled_error_def)
  next
    assume "fetchGitHubRepositories net query = Inr []"
      and "fetchGitHubCodeSnippets env net query = Inr []"
    with False show ?thesis
      by (simp add: fetchSearchResults_def rethrow_def settled_value_def settled_error_def)
  qed
qed

text \<open>
  Claim C2. When both upstream searches fail, or both return no item,
  \<open>fetchSearchResults\<close> rejects, with a message that says what happened: the
  empty-query message; or "Search failed:" followed by the message of each of the two
  failed searches; or the final no-results message when both returned nothing. The
  message of a failed search is the translation of its error by the catch block, and
  errors of different kinds (authentication, rate limit, invalid query, other API
  status, network, anything else) have different messages.
\<close>

theorem fetchSearchResults_rejects:
  assumes "(\<exists>m0 m1. fetchGitHubRepositories net query = Inl m0 \<and>
                    fetchGitHubCodeSnippets env net query = Inl m1)
           \<or> (fetchGitHubRepositories net query = Inr [] \<and>
              fetchGitHubCodeSnippets env net query = Inr [])"
  shows "fetchSearchResults env net query =
           Inl (if trim query = [] then ''Search query cannot be empty''
                else (case (fetchGitHubRepositories net query,
                            fetchGitHubCodeSnippets env net query) of
                        (Inl m0, Inl m1) \<Rightarrow>
                          ''Search failed: Repository search: '' @ m0 @ ''; Code search: '' @ m1
                      | _ \<Rightarrow>
                          ''No results found for your search query. Try different search terms.''))
         \<and> (\<forall>m. fetchGitHubRepositories net query = Inl m \<or>
                 fetchGitHubCodeSnippets env net query = Inl m \<longrightarrow>
                 (\<exists>e. m = translate_error e))
         \<and> (\<forall>e e'. failure_kind e \<noteq> failure_kind e' \<longrightarrow> translate_error e \<noteq> translate_error e')"
proof (intro conjI allI impI)
  show "fetchSearchResults env net query =
           Inl (if trim query = [] then ''Search query cannot be empty''
                else (case (fetchGitHubRepositories net query,
                            fetchGitHubCodeSnippets env net query) of
                        (Inl m0, Inl m1) \<Rightarrow>
                          ''Search failed: Repository search: '' @ m0 @ ''; Code search: '' @ m1
                      | _ \<Rightarrow>
                          ''No results found for your search query. Try different search terms.''))"
    by (rule rejects_with [OF assms])
next
  fix m
  assume "fetchGitHubRepositories net query = Inl m \<or>
          fetchGitHubCodeSnippets env net query = Inl m"
  then show "\<exists>e. m = translate_error e"
    using upstream_failure_message_repos upstream_failure_message_code by blast
next
  fix e e'
  assume "failure_kind e \<noteq> failure_kind e'"
  then show "translate_error e \<noteq> translate_error e'"
    by (rule translate_error_distinct)
qed

theorem fetchSearchResults_rejects_witness:
  "fetchGitHubRepositories failing_net ''react hooks'' =
     Inl ''GitHub API authentication failed. Please check your API token.''
   \<and> fetchGitHubCodeSnippets js_env failing_net ''react hooks'' =
     Inl ''Network error. Please check your internet connection.''
   \<and> fetchSearchResults js_env failing_net ''react hooks'' =
     Inl (''Search failed: Repository search: '' @
          ''GitHub API authentication failed. Please check your API token.'' @
          ''; Code search: '' @ ''Network error. Please check your internet connection.'')
   \<and> fetchGitHubRepositories (example_net [] [] []) ''react hooks'' = Inr []
   \<and> fetchGitHubCodeSnippets js_env (example_net [] [] []) ''react hooks'' = Inr []
   \<and> fetchSearchResults js_env (example_net [] [] []) ''react hooks'' =
     Inl ''No results found for your search query. Try different search terms.''"
proof -
  have q: "trim ''react hooks'' \<noteq> []" by code_simp
  have f0: "fetchGitHubRepositories failing_net ''react hooks'' =
              Inl ''GitHub API authentication failed. Please check your API token.''"
    by code_simp
  have f1: "fetchGitHubCodeSnippets js_env failing_net ''react hooks'' =
              Inl ''Network error. Please check your internet connection.''"
    by code_simp
  have z0: "fetchGitHubRepositories (example_net [] [] []) ''react hooks'' = Inr []"
    by code_simp
  have z1: "fetchGitHubCodeSnippets js_env (example_net [] [] []) ''react hooks'' = Inr []"
    by code_simp
  have pre_a: "(\<exists>m0 m1. fetchGitHubRepositories failing_net ''react hooks'' = Inl m0 \<and>
                    fetchGitHubCodeSnippets js_env failing_net ''react hooks'' = Inl m1)
           \<or> (fetchGitHubRepositories failing_net ''react hooks'' = Inr [] \<and>
              fetchGitHubCodeSnippets js_env failing_net ''react hooks'' = Inr [])"
    using f0 f1 by blast
  have pre_b: "(\<exists>m0 m1. fetchGitHubRepositories (example_net [] [] []) ''react hooks'' = Inl m0 \<and>
                    fetchGitHubCodeSnippets js_env (example_net [] [] []) ''react hooks'' = Inl m1)
           \<or> (fetchGitHubRepositories (example_net [] [] []) ''react hooks'' = Inr [] \<and>
              fetchGitHubCodeSnippets js_env (example_net [] [] []) ''react hooks'' = Inr [])"
    using z0 z1 by blast
  have a: "fetchSearchResults js_env failing_net ''react hooks'' =
     Inl (''Search failed: Repository search: '' @
          ''GitHub API authentication failed. Please check your API token.'' @
          ''; Code search: '' @ ''Network error. Please check your internet connection.'')"
    using conjunct1 [OF fetchSearchResults_rejects [OF pre_a]] q
    by (simp only: f0 f1 if_False prod.case sum.case)
  have b: "fetchSearchResults js_env (example_net [] [] []) ''react hooks'' =
     Inl ''No results found for your search query. Try different search terms.''"
    using conjunct1 [OF fetchSearchResults_rejects [OF pre_b]] q
    by (simp only: z0 z1 if_False prod.case sum.case)
  show ?thesis by (intro conjI f0 f1 a z0 z1 b)
qed

section \<open>Enrichment of code results\<close>

lemma foldl_set_last:
  "foldl (\<lambda>m repo. m(source repo \<mapsto> repo)) m0 rs s =
     (if filter (\<lambda>r. source r = s) rs = [] then m0 s
      else Some (last (filter (\<lambda>r. source r = s) rs)))"
  by (induction rs rule: rev_induct) simp_all

lemma repoDataMap_last:
  "repoDataMap rs s =
     (if filter (\<lambda>r. source r = s) rs = [] then None
      else Some (last (filter (\<lambda>r. source r = s) rs)))"
  by (simp add: repoDataMap_def foldl_set_last)

lemma score_results_Cons:
  assumes "score_results env query (x # xs) = Inr ys"
  obtains sc rest where "calculateCombinedScore env x query = Inr sc"
    and "score_results env query xs = Inr rest"
    and "ys = x\<lparr>score := Some sc\<rparr> # rest"
proof (cases "calculateCombinedScore env x query")
  case (Inl e)
  with assms show ?thesis by simp
next
  case sc: (Inr sc)
  show ?thesis
  proof (cases "score_results env query xs")
    case (Inl e)
    with assms sc show ?thesis by simp
  next
    case (Inr rest)
    with assms sc that show ?thesis by simp
  qed
qed

lemma score_results_nth:
  "score_results env query xs = Inr ys \<Longrightarrow>
   list_all2 (\<lambda>x y. \<exists>sc. y = x\<lparr>score := Some sc\<rparr>) xs ys"
proof (induction xs arbitrary: ys)
  case Nil
  then show ?case by simp
next
  case (Cons x xs)
  from Cons.prems obtain sc rest where
    rest: "score_results env query xs = Inr rest"
    and ys: "ys = x\<lparr>score := Some sc\<rparr> # rest"
    by (rule score_results_Cons)
  from Cons.IH [OF rest] ys show ?case by blast
qed

lemma combine_nth_code:
  assumes "i < length codes"
  shows "combine repos codes ! (min 3 (length repos) + i) =
           enrich (repoDataMap (map (\<lambda>repo. repo\<lparr>apiSource := Some repos_api_source\<rparr>) repos))
             ((codes ! i)\<lparr>apiSource := Some code_api_source\<rparr>)"
  using assms by (simp add: combine_def Let_def nth_append min_def)

lemma combine_length: "length (combine repos codes) = length repos + length codes"
  by (simp add: combine_def Let_def)

lemma fetchSearchResults_Inr:
  assumes "fetchSearchResults env net query = Inr out"
  shows "score_results env query
           (combine (settled_value (fetchGitHubRepositories net query))
                    (settled_value (fetchGitHubCodeSnippets env net query))) = Inr out"
  using assms
  by (simp add: fetchSearchResults_def Let_def split: if_splits sum.splits js_error.splits)

lemma repoDataMap_attributed:
  assumes "filter (\<lambda>r. source r = s) repos \<noteq> []"
  shows "repoDataMap (map (\<lambda>repo. repo\<lparr>apiSource := Some repos_api_source\<rparr>) repos) s =
           Some ((last (filter (\<lambda>r. source r = s) repos))\<lparr>apiSource := Some repos_api_source\<rparr>)"
proof -
  have "filter (\<lambda>r. source r = s) (map (\<lambda>repo. repo\<lparr>apiSource := Some repos_api_source\<rparr>) repos) =
        map (\<lambda>repo. repo\<lparr>apiSource := Some repos_api_source\<rparr>) (filter (\<lambda>r. source r = s) repos)"
    by (simp add: filter_map comp_def)
  with assms show ?thesis
    by (simp add: repoDataMap_last last_map)
qed

text \<open>
  The lookup table is filled in the order of the repository results, a later entry
  replacing an earlier one with the same key, and a code result with an empty \<open>source\<close>
  is left as it is. So an enriched code result carries the values of the last repository
  result with its source.
\<close>

lemma enrichment_uses_last_entry:
  assumes "fetchSearchResults env net query = Inr out"
    and "fetchGitHubRepositories net query = Inr repos"
    and "fetchGitHubCodeSnippets env net query = Inr codes"
    and "i < length codes"
    and "source (codes ! i) \<noteq> []"
    and "filter (\<lambda>r. source r = source (codes ! i)) repos \<noteq> []"
  shows "\<exists>sc. out ! (min 3 (length repos) + i) =
           (let repo = last (filter (\<lambda>r. source r = source (codes ! i)) repos)
            in (codes ! i)\<lparr>stars := stars repo,
                           forks := forks repo,
                           watchers := watchers repo,
                           openIssues := openIssues repo,
                           license := license repo,
                           topics := topics repo,
                           hasRepoData := True,
                           apiSource := Some code_api_source,
                           score := Some sc\<rparr>)"
proof -
  let ?k = "min 3 (length repos) + i"
  let ?repo = "last (filter (\<lambda>r. source r = source (codes ! i)) repos)"
  from assms(1-3) have "score_results env query (combine repos codes) = Inr out"
    using fetchSearchResults_Inr [of env net query out] by (simp add: settled_value_def)
  then have all2: "list_all2 (\<lambda>x y. \<exists>sc. y = x\<lparr>score := Some sc\<rparr>) (combine repos codes) out"
    by (rule score_results_nth)
  have k: "?k < length (combine repos codes)"
    using assms(4) by (simp add: combine_length min_def)
  from list_all2_nthD [OF all2 k] obtain sc where
    out: "out ! ?k = (combine repos codes ! ?k)\<lparr>score := Some sc\<rparr>" by blast
  have "combine repos codes ! ?k =
          enrich (repoDataMap (map (\<lambda>repo. repo\<lparr>apiSource := Some repos_api_source\<rparr>) repos))
            ((codes ! i)\<lparr>apiSource := Some code_api_source\<rparr>)"
    by (rule combine_nth_code [OF assms(4)])
  also have "\<dots> = (codes ! i)\<lparr>stars := stars ?repo, forks := forks ?repo,
                      watchers := watchers ?repo, openIssues := openIssues ?repo,
                      license := license ?repo, topics := topics ?repo,
                      hasRepoData := True, apiSource := Some code_api_source\<rparr>"
    using assms(5) repoDataMap_attributed [OF assms(6)]
    by (simp add: enrich_def)
  finally have "out ! ?k = (codes ! i)\<lparr>stars := stars ?repo, forks := forks ?repo,
                      watchers := watchers ?repo, openIssues := openIssues ?repo,
                      license := license ?repo, topics := topics ?repo,
                      hasRepoData := True, apiSource := Some code_api_source,
                      score := Some sc\<rparr>"
    using out by simp
  then show ?thesis unfolding Let_def by (rule exI [of _ sc])
qed

lemma filter_distinct_key:
  "distinct (map f xs) \<Longrightarrow> x \<in> set xs \<Longrightarrow> filter (\<lambda>r. f r = f x) xs = [x]"
proof (induction xs)
  case Nil
  then show ?case by simp
next
  case (Cons a xs)
  show ?case
  proof (cases "a = x")
    case True
    from Cons.prems(1) have "f x \<notin> f ` set xs" using True by simp
    then have "\<forall>r \<in> set xs. f r \<noteq> f x" by (metis imageI)
    then have "filter (\<lambda>r. f r = f x) xs = []" by (simp add: filter_empty_conv)
    with True show ?thesis by simp
  next
    case False
    with Cons.prems have x: "x \<in> set xs" and "f a \<noteq> f x" by auto
    with Cons.IH Cons.prems(1) show ?thesis by simp
  qed
qed

lemma enrich_empty_source: "source codeResult = [] \<Longrightarrow> enrich m codeResult = codeResult"
  by (simp add: enrich_def)

text \<open>
  Claim C3. The repository search lists each repository once, under its full name, which
  is not empty; so the \<open>source\<close> fields of the fetched repository results are distinct
  and not empty, which the theorem assumes. Then, when \<open>fetchSearchResults\<close> returns,
  every code result whose \<open>source\<close> equals the \<open>source\<close> of a fetched repository
  result is returned (after the first three repositories, in the order of the code
  results) with \<open>stars\<close>, \<open>forks\<close>,
  \<open>watchers\<close>, \<open>openIssues\<close>, \<open>license\<close> and \<open>topics\<close> equal to those of that
  repository result, whatever the code search gave for them, and otherwise as the code
  search produced it (marked as enriched, attributed to the code API, and scored).
\<close>

theorem enrichment_copies_repository_metadata:
  assumes "fetchSearchResults env net query = Inr out"
    and "fetchGitHubRepositories net query = Inr repos"
    and "fetchGitHubCodeSnippets env net query = Inr codes"
    and "distinct (map source repos)"
    and "i < length codes"
    and "repo \<in> set repos"
    and "source repo \<noteq> []"
    and "source (codes ! i) = source repo"
  shows "\<exists>sc. out ! (min 3 (length repos) + i) =
           (codes ! i)\<lparr>stars := stars repo,
                        forks := forks repo,
                        watchers := watchers repo,
                        openIssues := openIssues repo,
                        license := license repo,
                        topics := topics repo,
                        hasRepoData := True,
                        apiSource := Some code_api_source,
                        score := Some sc\<rparr>"
proof -
  have one: "filter (\<lambda>r. source r = source (codes ! i)) repos = [repo]"
    unfolding assms(8) by (rule filter_distinct_key [OF assms(4,6)])
  then have some: "filter (\<lambda>r. source r = source (codes ! i)) repos \<noteq> []" by simp
  have src: "source (codes ! i) \<noteq> []" using assms(7,8) by simp
  from enrichment_uses_last_entry [OF assms(1-3,5) src some]
  show ?thesis unfolding one Let_def by simp
qed

theorem enrichment_copies_repository_metadata_witness:
  "fetchSearchResults js_env
     (example_net [example_repo ''octo/demo'' 1 5, example_repo ''octo/other'' 2 9]
        [example_hit ''src/a.ts''] ''demo code'') ''demo''
   = Inr (projr (fetchSearchResults js_env
     (example_net [example_repo ''octo/demo'' 1 5, example_repo ''octo/other'' 2 9]
        [example_hit ''src/a.ts''] ''demo code'') ''demo''))
   \<and> map source (projr (fetchGitHubRepositories
     (example_net [example_repo ''octo/demo'' 1 5, example_repo ''octo/other'' 2 9]
        [example_hit ''src/a.ts''] ''demo code'') ''demo''))
     = [''octo/demo'', ''octo/other'']
   \<and> map stars (projr (fetchGitHubRepositories
     (example_net [example_repo ''octo/demo'' 1 5, example_repo ''octo/other'' 2 9]
        [example_hit ''src/a.ts''] ''demo code'') ''demo''))
     = [Some 5, Some 9]
   \<and> map source (projr (fetchGitHubCodeSnippets js_env
     (example_net [example_repo ''octo/demo'' 1 5, example_repo ''octo/other'' 2 9]
        [example_hit ''src/a.ts''] ''demo code'') ''demo''))
     = [''octo/demo'']
   \<and> map stars (projr (fetchGitHubCodeSnippets js_env
     (example_net [example_repo ''octo/demo'' 1 5, example_repo ''octo/other'' 2 9]
        [example_hit ''src/a.ts''] ''demo code'') ''demo''))
     = [None]
   \<and> map rtype (projr (fetchSearchResults js_env
     (example_net [example_repo ''octo/demo'' 1 5, example_repo ''octo/other'' 2 9]
        [example_hit ''src/a.ts''] ''demo code'') ''demo''))
     = [Repository, Repository, Code]
   \<and> stars (projr (fetchSearchResults js_env
     (example_net [example_repo ''octo/demo'' 1 5, example_repo ''octo/other'' 2 9]
        [example_hit ''src/a.ts''] ''demo code'') ''demo'')
       ! 2) = Some 5
   \<and> topics (projr (fetchSearchResults js_env
     (example_net [example_repo ''octo/demo'' 1 5, example_repo ''octo/other'' 2 9]
        [example_hit ''src/a.ts''] ''demo code'') ''demo'')
       ! 2) = Some []"
proof -
  let ?net = "example_net [example_repo ''octo/demo'' 1 5, example_repo ''octo/other'' 2 9]
                [example_hit ''src/a.ts''] ''demo code''"
  let ?out = "projr (fetchSearchResults js_env ?net ''demo'')"
  let ?repos = "projr (fetchGitHubRepositories ?net ''demo'')"
  let ?codes = "projr (fetchGitHubCodeSnippets js_env ?net ''demo'')"
  have "\<not> isl (fetchSearchResults js_env ?net ''demo'')" by code_simp
  then have out: "fetchSearchResults js_env ?net ''demo'' = Inr ?out" by simp
  have "\<not> isl (fetchGitHubRepositories ?net ''demo'')" by code_simp
  then have repos: "fetchGitHubRepositories ?net ''demo'' = Inr ?repos" by simp
  have "\<not> isl (fetchGitHubCodeSnippets js_env ?net ''demo'')" by code_simp
  then have codes: "fetchGitHubCodeSnippets js_env ?net ''demo'' = Inr ?codes" by simp
  have rs: "map source ?repos = [''octo/demo'', ''octo/other'']" by code_simp
  have rstars: "map stars ?repos = [Some 5, Some 9]" by code_simp
  have cs: "map source ?codes = [''octo/demo'']" by code_simp
  have cstars: "map stars ?codes = [None]" by code_simp
  have ts: "map rtype ?out = [Repository, Repository, Code]" by code_simp
  have dist: "distinct (map source ?repos)" unfolding rs by simp
  have len: "0 < length ?codes" by code_simp
  have mem: "?repos ! 0 \<in> set ?repos" by code_simp
  have ne: "source (?repos ! 0) \<noteq> []" by code_simp
  have same: "source (?codes ! 0) = source (?repos ! 0)" by code_simp
  have pos: "min 3 (length ?repos) + 0 = 2" by code_simp
  have repo: "stars (?repos ! 0) = Some 5" "topics (?repos ! 0) = Some []" by code_simp+
  from enrichment_copies_repository_metadata [OF out repos codes dist len mem ne same]
  obtain sc where "?out ! (min 3 (length ?repos) + 0) =
      (?codes ! 0)\<lparr>stars := stars (?repos ! 0), forks := forks (?repos ! 0),
            watchers := watchers (?repos ! 0), openIssues := openIssues (?repos ! 0),
            license := license (?repos ! 0), topics := topics (?repos ! 0),
            hasRepoData := True, apiSource := Some code_api_source, score := Some sc\<rparr>"
    by blast
  then have "stars (?out ! 2) = Some 5" and "topics (?out ! 2) = Some []"
    unfolding pos by (simp_all add: repo)
  with out rs rstars cs cstars ts show ?thesis by (intro conjI)
qed

section \<open>Snippets: the separator between context windows\<close>

definition file_of :: "string list \<Rightarrow> string" where
  \<comment> \<open>the text of a file, from its lines\<close>
  "file_of ls = join [NL] ls"

lemma matchingLineIndices_bounds:
  "m \<in> set (matchingLineIndices rx lines) \<Longrightarrow> 0 \<le> m \<and> m < int (length lines)"
  by (auto simp: matchingLineIndices_def)

lemma snippet_loop_two:
  assumes "0 \<le> m1" and "m1 + 5 < m2" and "m2 < int (length lines)"
  shows "snippet_loop lines [m1, m2] ([], [], - 1) =
           (map (\<lambda>i. lines ! nat i) [max 0 (m1 - 2)..m1 + 2] @ [''...''] @
            map (\<lambda>i. lines ! nat i) [m2 - 2..min (int (length lines) - 1) (m2 + 2)],
            map (\<lambda>i. i + 1) [max 0 (m1 - 2)..m1 + 2] @ [- 1] @
            map (\<lambda>i. i + 1) [m2 - 2..min (int (length lines) - 1) (m2 + 2)],
            min (int (length lines) - 1) (m2 + 2))"
proof -
  have e1: "min (int (length lines) - 1) (m1 + 2) = m1 + 2" using assms by simp
  have s2: "max 0 (m2 - 2) = m2 - 2" using assms by simp
  have first: "snippet_loop lines [m1, m2] ([], [], - 1) =
                snippet_loop lines [m2]
                  (map (\<lambda>i. lines ! nat i) [max 0 (m1 - 2)..m1 + 2],
                   map (\<lambda>i. i + 1) [max 0 (m1 - 2)..m1 + 2], m1 + 2)"
  proof (cases "m1 \<le> 2")
    case True
    then have "max 0 (m1 - 2) = 0" by simp
    then show ?thesis using e1 by (simp add: Let_def)
  next
    case False
    then have "\<not> max 0 (m1 - 2) \<le> - 1 + 1" by simp
    then show ?thesis using e1 by (simp add: Let_def)
  qed
  have ne: "map (\<lambda>i. lines ! nat i) [max 0 (m1 - 2)..m1 + 2] \<noteq> []"
    using assms by (simp add: upto_Nil)
  have gap: "\<not> m2 - 2 \<le> m1 + 2 + 1" using assms by simp
  show ?thesis
    unfolding first using ne gap s2 by (simp add: Let_def)
qed

lemma matchingLineIndices_increasing:
  "sorted_wrt (<) (matchingLineIndices rx lines)"
  unfolding matchingLineIndices_def
  by (simp add: sorted_wrt_map sorted_wrt_filter)

lemma snippet_loop_first:
  assumes "0 \<le> m"
  shows "snippet_loop lines (m # ms) ([], [], - 1) =
           snippet_loop lines ms
             (map (\<lambda>i. lines ! nat i) [max 0 (m - 2)..min (int (length lines) - 1) (m + 2)],
              map (\<lambda>i. i + 1) [max 0 (m - 2)..min (int (length lines) - 1) (m + 2)],
              min (int (length lines) - 1) (m + 2))"
proof (cases "m \<le> 2")
  case True
  then have "max 0 (m - 2) = 0" by simp
  then show ?thesis by (simp add: Let_def)
next
  case False
  then have "\<not> max 0 (m - 2) \<le> - 1 + 1" by simp
  then show ?thesis by (simp add: Let_def)
qed

lemma snippet_loop_two_near:
  assumes "0 \<le> m1" and "m1 < m2" and "m2 \<le> m1 + 5" and "m2 < int (length lines)"
  shows "snippet_loop lines [m1, m2] ([], [], - 1) =
           (map (\<lambda>i. lines ! nat i) [max 0 (m1 - 2)..min (int (length lines) - 1) (m2 + 2)],
            map (\<lambda>i. i + 1) [max 0 (m1 - 2)..min (int (length lines) - 1) (m2 + 2)],
            min (int (length lines) - 1) (m2 + 2))"
proof -
  let ?s1 = "max 0 (m1 - 2)"
  let ?e1 = "min (int (length lines) - 1) (m1 + 2)"
  let ?e2 = "min (int (length lines) - 1) (m2 + 2)"
  have near: "max 0 (m2 - 2) \<le> ?e1 + 1" using assms unfolding min_def max_def by auto
  have le1: "?s1 \<le> ?e1" using assms unfolding min_def max_def by auto
  have le2: "?e1 \<le> ?e2" using assms unfolding min_def max_def by auto
  have split: "[?s1..?e2] = [?s1..?e1] @ [?e1 + 1..?e2]"
    by (rule upto_split2 [OF le1 le2])
  have "snippet_loop lines [m1, m2] ([], [], - 1) =
          snippet_loop lines [m2]
            (map (\<lambda>i. lines ! nat i) [?s1..?e1], map (\<lambda>i. i + 1) [?s1..?e1], ?e1)"
    by (rule snippet_loop_first [OF assms(1)])
  also have "\<dots> = (map (\<lambda>i. lines ! nat i) [?s1..?e1] @ map (\<lambda>i. lines ! nat i) [?e1 + 1..?e2],
                    map (\<lambda>i. i + 1) [?s1..?e1] @ map (\<lambda>i. i + 1) [?e1 + 1..?e2], ?e2)"
    using near by (simp add: Let_def)
  finally show ?thesis unfolding split by simp
qed

lemma count_list_window: "0 \<le> a \<Longrightarrow> count_list (map (\<lambda>i. i + 1) [a..b]) (- 1 :: int) = 0"
  by (auto simp: count_list_0_iff)

text \<open>
  Claim C5, as stated: two matching lines more than 4 lines apart give exactly one
  \<open>-1\<close> sentinel. It fails at distance 5: with matches on lines 1 and 6 (indices 0 and 5)
  of an 8-line file the two windows, lines 1-3 and 4-8, are adjacent, the test
  \<open>startLine <= lastLineAdded + 1\<close> merges them, and no sentinel is inserted.
\<close>

theorem separator_counterexample:
  "(case queryRegex js_env ''foo'' of
      Inr rx \<Rightarrow>
        matchingLineIndices rx
          (split_on NL (file_of [''foo 1'', ''a'', ''b'', ''c'', ''d'', ''foo 2'', ''e'', ''f'']))
        = [0, 5]
    | Inl e \<Rightarrow> False)
   \<and> map_option lineNumbers
        (process_code_item js_env
           (example_net [] [example_hit ''src/a.ts'']
              (file_of [''foo 1'', ''a'', ''b'', ''c'', ''d'', ''foo 2'', ''e'', ''f'']))
           ''foo'' (example_hit ''src/a.ts''))
      = Some (Some [1, 2, 3, 4, 5, 6, 7, 8])"
  by code_simp

text \<open>
  Claim C5, amended. For a file in which exactly two lines match: when the second is more
  than 5 lines after the first, the snippet has exactly one \<open>-1\<close> sentinel in
  \<open>lineNumbers\<close> (and the line \<open>...\<close> in the text), between the window of two lines
  around the first match and the window around the second, each clipped to the file;
  when it is at most 5 lines after the first (at exactly 5 the two windows are adjacent),
  the windows are merged into one run of consecutive lines, from two lines before the
  first match to two lines after the second, without a sentinel.
\<close>

theorem separator_between_distant_matches:
  assumes "get_contents net (contents_url item) = ContentReplied 200 statusText (TextData content)"
    and "queryRegex env query = Inr rx"
    and "matchingLineIndices rx (split_on NL content) = [m1, m2]"
  shows "\<exists>r. process_code_item env net query item = Some r
           \<and> lineNumbers r =
               Some (if m1 + 5 < m2
                     then map (\<lambda>i. i + 1) [max 0 (m1 - 2)..m1 + 2] @ [- 1] @
                          map (\<lambda>i. i + 1)
                            [m2 - 2..min (int (length (split_on NL content)) - 1) (m2 + 2)]
                     else map (\<lambda>i. i + 1)
                            [max 0 (m1 - 2)..min (int (length (split_on NL content)) - 1) (m2 + 2)])
           \<and> snippet r =
               Some (join [NL]
                 (if m1 + 5 < m2
                  then map (\<lambda>i. split_on NL content ! nat i) [max 0 (m1 - 2)..m1 + 2] @ [''...''] @
                       map (\<lambda>i. split_on NL content ! nat i)
                         [m2 - 2..min (int (length (split_on NL content)) - 1) (m2 + 2)]
                  else map (\<lambda>i. split_on NL content ! nat i)
                         [max 0 (m1 - 2)..min (int (length (split_on NL content)) - 1) (m2 + 2)]))
           \<and> count_list (the (lineNumbers r)) (- 1) = (if m1 + 5 < m2 then 1 else 0)"
proof -
  let ?lines = "split_on NL content"
  have "m1 \<in> set (matchingLineIndices rx ?lines)" and "m2 \<in> set (matchingLineIndices rx ?lines)"
    using assms(3) by simp_all
  then have b: "0 \<le> m1" "m2 < int (length ?lines)"
    using matchingLineIndices_bounds by blast+
  have "sorted_wrt (<) [m1, m2]"
    using matchingLineIndices_increasing [of rx ?lines] unfolding assms(3) .
  then have lt: "m1 < m2" by simp
  show ?thesis
  proof (cases "m1 + 5 < m2")
    case True
    note loop = snippet_loop_two [OF b(1) True b(2)]
    have cnt: "count_list (map (\<lambda>i. i + 1) [max 0 (m1 - 2)..m1 + 2] @ [- 1] @
                     map (\<lambda>i. i + 1) [m2 - 2..min (int (length ?lines) - 1) (m2 + 2)]) (- 1 :: int) = 1"
      using b True by (simp add: count_list_window)
    show ?thesis
      using assms(1-3) cnt True
      by (simp add: process_code_item_def Let_def loop code_result_def del: snippet_loop.simps)
  next
    case False
    then have near: "m2 \<le> m1 + 5" by simp
    note loop = snippet_loop_two_near [OF b(1) lt near b(2)]
    have cnt: "count_list (map (\<lambda>i. i + 1)
                 [max 0 (m1 - 2)..min (int (length ?lines) - 1) (m2 + 2)]) (- 1 :: int) = 0"
      by (simp add: count_list_window)
    show ?thesis
      using assms(1-3) cnt False
      by (simp add: process_code_item_def Let_def loop code_result_def del: snippet_loop.simps)
  qed
qed

theorem separator_between_distant_matches_witness:
  "get_contents
     (example_net [] [example_hit ''src/a.ts'']
        (file_of [''foo 1'', ''a'', ''b'', ''c'', ''d'', ''e'', ''foo 2'', ''f'', ''g'']))
     (contents_url (example_hit ''src/a.ts''))
   = ContentReplied 200 ''OK''
       (TextData (file_of [''foo 1'', ''a'', ''b'', ''c'', ''d'', ''e'', ''foo 2'', ''f'', ''g'']))
   \<and> queryRegex js_env ''foo'' = Inr (projr (queryRegex js_env ''foo''))
   \<and> matchingLineIndices (projr (queryRegex js_env ''foo''))
        (split_on NL (file_of [''foo 1'', ''a'', ''b'', ''c'', ''d'', ''e'', ''foo 2'', ''f'', ''g'']))
      = [0, 6]
   \<and> (\<exists>r. process_code_item js_env
              (example_net [] [example_hit ''src/a.ts'']
                 (file_of [''foo 1'', ''a'', ''b'', ''c'', ''d'', ''e'', ''foo 2'', ''f'', ''g'']))
              ''foo'' (example_hit ''src/a.ts'') = Some r
          \<and> lineNumbers r = Some [1, 2, 3, - 1, 5, 6, 7, 8, 9]
          \<and> snippet r = Some (file_of [''foo 1'', ''a'', ''b'', ''...'', ''d'', ''e'', ''foo 2'', ''f'', ''g''])
          \<and> count_list (the (lineNumbers r)) (- 1) = 1)
   \<and> get_contents
     (example_net [] [example_hit ''src/a.ts'']
        (file_of [''foo 1'', ''a'', ''b'', ''c'', ''d'', ''foo 2'', ''e'', ''f'', ''g'']))
     (contents_url (example_hit ''src/a.ts''))
   = ContentReplied 200 ''OK''
       (TextData (file_of [''foo 1'', ''a'', ''b'', ''c'', ''d'', ''foo 2'', ''e'', ''f'', ''g'']))
   \<and> matchingLineIndices (projr (queryRegex js_env ''foo''))
        (split_on NL (file_of [''foo 1'', ''a'', ''b'', ''c'', ''d'', ''foo 2'', ''e'', ''f'', ''g'']))
      = [0, 5]
   \<and> (\<exists>r. process_code_item js_env
              (example_net [] [example_hit ''src/a.ts'']
                 (file_of [''foo 1'', ''a'', ''b'', ''c'', ''d'', ''foo 2'', ''e'', ''f'', ''g'']))
              ''foo'' (example_hit ''src/a.ts'') = Some r
          \<and> lineNumbers r = Some [1, 2, 3, 4, 5, 6, 7, 8]
          \<and> snippet r = Some (file_of [''foo 1'', ''a'', ''b'', ''c'', ''d'', ''foo 2'', ''e'', ''f''])
          \<and> count_list (the (lineNumbers r)) (- 1) = 0)"
proof -
  let ?far = "file_of [''foo 1'', ''a'', ''b'', ''c'', ''d'', ''e'', ''foo 2'', ''f'', ''g'']"
  let ?near = "file_of [''foo 1'', ''a'', ''b'', ''c'', ''d'', ''foo 2'', ''e'', ''f'', ''g'']"
  let ?rx = "projr (queryRegex js_env ''foo'')"
  have "\<not> isl (queryRegex js_env ''foo'')" by code_simp
  then have rx: "queryRegex js_env ''foo'' = Inr ?rx" by simp
  have c6: "get_contents (example_net [] [example_hit ''src/a.ts''] ?far)
              (contents_url (example_hit ''src/a.ts''))
             = ContentReplied 200 ''OK'' (TextData ?far)"
    by code_simp
  have m6: "matchingLineIndices ?rx (split_on NL ?far) = [0, 6]" by code_simp
  have far: "(0::int) + 5 < 6" by simp
  have n6: "map (\<lambda>i. i + 1) [max 0 (0 - 2)..0 + 2] @ [- 1] @
            map (\<lambda>i. i + 1) [6 - 2..min (int (length (split_on NL ?far)) - 1) (6 + 2)]
            = [1, 2, 3, - 1, 5, 6, 7, 8, 9 :: int]"
    by code_simp
  have l6: "join [NL]
              (map (\<lambda>i. split_on NL ?far ! nat i) [max 0 (0 - 2)..0 + 2] @ [''...''] @
               map (\<lambda>i. split_on NL ?far ! nat i)
                 [6 - 2..min (int (length (split_on NL ?far)) - 1) (6 + 2)])
            = file_of [''foo 1'', ''a'', ''b'', ''...'', ''d'', ''e'', ''foo 2'', ''f'', ''g'']"
    by code_simp
  have r6: "\<exists>r. process_code_item js_env (example_net [] [example_hit ''src/a.ts''] ?far)
                  ''foo'' (example_hit ''src/a.ts'') = Some r
          \<and> lineNumbers r = Some [1, 2, 3, - 1, 5, 6, 7, 8, 9]
          \<and> snippet r = Some (file_of [''foo 1'', ''a'', ''b'', ''...'', ''d'', ''e'', ''foo 2'', ''f'', ''g''])
          \<and> count_list (the (lineNumbers r)) (- 1) = 1"
    using separator_between_distant_matches [OF c6 rx m6]
    unfolding if_P [OF far] n6 l6 by blast
  have c5: "get_contents (example_net [] [example_hit ''src/a.ts''] ?near)
              (contents_url (example_hit ''src/a.ts''))
             = ContentReplied 200 ''OK'' (TextData ?near)"
    by code_simp
  have m5: "matchingLineIndices ?rx (split_on NL ?near) = [0, 5]" by code_simp
  have near: "\<not> (0::int) + 5 < 5" by simp
  have n5: "map (\<lambda>i. i + 1) [max 0 (0 - 2)..min (int (length (split_on NL ?near)) - 1) (5 + 2)]
            = [1, 2, 3, 4, 5, 6, 7, 8 :: int]"
    by code_simp
  have l5: "join [NL]
              (map (\<lambda>i. split_on NL ?near ! nat i)
                 [max 0 (0 - 2)..min (int (length (split_on NL ?near)) - 1) (5 + 2)])
            = file_of [''foo 1'', ''a'', ''b'', ''c'', ''d'', ''foo 2'', ''e'', ''f'']"
    by code_simp
  have r5: "\<exists>r. process_code_item js_env (example_net [] [example_hit ''src/a.ts''] ?near)
                  ''foo'' (example_hit ''src/a.ts'') = Some r
          \<and> lineNumbers r = Some [1, 2, 3, 4, 5, 6, 7, 8]
          \<and> snippet r = Some (file_of [''foo 1'', ''a'', ''b'', ''c'', ''d'', ''foo 2'', ''e'', ''f''])
          \<and> count_list (the (lineNumbers r)) (- 1) = 0"
    using separator_between_distant_matches [OF c5 rx m5]
    unfolding if_not_P [OF near] n5 l5 by blast
  from c6 rx m6 r6 c5 m5 r5 show ?thesis by (intro conjI)
qed

section \<open>Snippets: line numbers and lines\<close>

definition aligned :: "string list \<Rightarrow> string list \<Rightarrow> int list \<Rightarrow> bool" where
  \<comment> \<open>line by line: a separator numbered \<open>-1\<close>, or the line of the file with that number\<close>
  "aligned lines snippetLines lineNums =
     list_all2 (\<lambda>l n. (n = - 1 \<and> l = ''...'') \<or>
                      (1 \<le> n \<and> n \<le> int (length lines) \<and> l = lines ! nat (n - 1)))
       snippetLines lineNums"

lemma window_aligned:
  assumes "0 \<le> a" and "e < int (length lines)"
  shows "aligned lines (map (\<lambda>i. lines ! nat i) [a..e]) (map (\<lambda>i. i + 1) [a..e])"
  using assms
  by (auto simp: aligned_def list_all2_map1 list_all2_map2 list_all2_same)

lemma aligned_append:
  "aligned lines a b \<Longrightarrow> aligned lines c d \<Longrightarrow> aligned lines (a @ c) (b @ d)"
  by (simp add: aligned_def list_all2_appendI)

lemma separator_aligned: "aligned lines [''...''] [- 1]"
  by (simp add: aligned_def)

lemma snippet_loop_step:
  "snippet_loop lines (m # ms) (sl, nums, lastAdded) =
     (if max 0 (m - 2) \<le> lastAdded + 1 then
        snippet_loop lines ms
          (sl @ map (\<lambda>i. lines ! nat i) [lastAdded + 1..min (int (length lines) - 1) (m + 2)],
           nums @ map (\<lambda>i. i + 1) [lastAdded + 1..min (int (length lines) - 1) (m + 2)],
           min (int (length lines) - 1) (m + 2))
      else
        snippet_loop lines ms
          (sl @ (if sl \<noteq> [] then [''...''] else []) @
             map (\<lambda>i. lines ! nat i) [max 0 (m - 2)..min (int (length lines) - 1) (m + 2)],
           nums @ (if sl \<noteq> [] then [- 1] else []) @
             map (\<lambda>i. i + 1) [max 0 (m - 2)..min (int (length lines) - 1) (m + 2)],
           min (int (length lines) - 1) (m + 2)))"
  by (simp add: Let_def)

lemma snippet_loop_aligned:
  assumes "\<forall>m \<in> set ms. 0 \<le> m \<and> m < int (length lines)"
    and "aligned lines sl nums" and "- 1 \<le> lastAdded"
  shows "aligned lines (fst (snippet_loop lines ms (sl, nums, lastAdded)))
                       (fst (snd (snippet_loop lines ms (sl, nums, lastAdded))))"
  using assms
proof (induction ms arbitrary: sl nums lastAdded)
  case Nil
  then show ?case by simp
next
  case (Cons m ms)
  let ?s = "max 0 (m - 2)"
  let ?e = "min (int (length lines) - 1) (m + 2)"
  from Cons.prems(1) have m: "0 \<le> m" "m < int (length lines)" by simp_all
  then have e: "- 1 \<le> ?e" "?e < int (length lines)" by simp_all
  have rest: "\<forall>m \<in> set ms. 0 \<le> m \<and> m < int (length lines)" using Cons.prems(1) by simp
  show ?case
  proof (cases "?s \<le> lastAdded + 1")
    case True
    have "aligned lines (sl @ map (\<lambda>i. lines ! nat i) [lastAdded + 1..?e])
                        (nums @ map (\<lambda>i. i + 1) [lastAdded + 1..?e])"
      using Cons.prems(2,3) e(2) by (intro aligned_append window_aligned) simp_all
    from Cons.IH [OF rest this e(1)] show ?thesis
      by (simp only: snippet_loop_step True if_True)
  next
    case False
    have w: "aligned lines (map (\<lambda>i. lines ! nat i) [?s..?e]) (map (\<lambda>i. i + 1) [?s..?e])"
      using e(2) by (intro window_aligned) simp_all
    have "aligned lines
            (sl @ (if sl \<noteq> [] then [''...''] else []) @ map (\<lambda>i. lines ! nat i) [?s..?e])
            (nums @ (if sl \<noteq> [] then [- 1] else []) @ map (\<lambda>i. i + 1) [?s..?e])"
    proof (cases "sl = []")
      case True
      with Cons.prems(2) have "nums = []" by (simp add: aligned_def)
      with True w show ?thesis by simp
    next
      case False
      with aligned_append [OF Cons.prems(2) aligned_append [OF separator_aligned w]]
      show ?thesis by simp
    qed
    from Cons.IH [OF rest this e(1)] show ?thesis
      by (simp only: snippet_loop_step False if_False)
  qed
qed

lemma snippet_loop_grows:
  "\<exists>more. fst (snippet_loop lines ms (sl, nums, lastAdded)) = sl @ more"
proof (induction ms arbitrary: sl nums lastAdded)
  case Nil
  show ?case by simp
next
  case (Cons m ms)
  let ?s = "max 0 (m - 2)"
  let ?e = "min (int (length lines) - 1) (m + 2)"
  show ?case
  proof (cases "?s \<le> lastAdded + 1")
    case True
    let ?sl = "sl @ map (\<lambda>i. lines ! nat i) [lastAdded + 1..?e]"
    obtain more where
      "fst (snippet_loop lines ms (?sl, nums @ map (\<lambda>i. i + 1) [lastAdded + 1..?e], ?e))
       = ?sl @ more"
      using Cons.IH by blast
    then have "fst (snippet_loop lines (m # ms) (sl, nums, lastAdded)) =
                    sl @ (map (\<lambda>i. lines ! nat i) [lastAdded + 1..?e] @ more)"
      by (simp only: snippet_loop_step True if_True append_assoc)
    then show ?thesis by blast
  next
    case False
    let ?sl = "sl @ (if sl \<noteq> [] then [''...''] else []) @ map (\<lambda>i. lines ! nat i) [?s..?e]"
    obtain more where
      "fst (snippet_loop lines ms
              (?sl, nums @ (if sl \<noteq> [] then [- 1] else []) @ map (\<lambda>i. i + 1) [?s..?e], ?e))
       = ?sl @ more"
      using Cons.IH by blast
    then have "fst (snippet_loop lines (m # ms) (sl, nums, lastAdded)) =
                    sl @ ((if sl \<noteq> [] then [''...''] else []) @
                          map (\<lambda>i. lines ! nat i) [?s..?e] @ more)"
      by (simp only: snippet_loop_step False if_False append_assoc)
    then show ?thesis by blast
  qed
qed

lemma snippet_loop_nonempty:
  assumes "0 \<le> m" and "m < int (length lines)"
  shows "fst (snippet_loop lines (m # ms) ([], [], - 1)) \<noteq> []"
proof -
  let ?s = "max 0 (m - 2)"
  let ?e = "min (int (length lines) - 1) (m + 2)"
  from assms have "lines \<noteq> []" by auto
  with assms have se: "?s \<le> ?e" "0 \<le> ?e" by simp_all
  show ?thesis
  proof (cases "?s \<le> - 1 + 1")
    case True
    obtain more where "fst (snippet_loop lines ms
                             ([] @ map (\<lambda>i. lines ! nat i) [- 1 + 1..?e],
                              [] @ map (\<lambda>i. i + 1) [- 1 + 1..?e], ?e))
                       = ([] @ map (\<lambda>i. lines ! nat i) [- 1 + 1..?e]) @ more"
      using snippet_loop_grows by blast
    then have eq: "fst (snippet_loop lines (m # ms) ([], [], - 1)) =
               ([] @ map (\<lambda>i. lines ! nat i) [- 1 + 1..?e]) @ more"
      by (simp only: snippet_loop_step True if_True)
    have "[- 1 + 1..?e] \<noteq> []"
      using se(2) unfolding upto_Nil by linarith
    then show ?thesis unfolding eq by (simp only: append_Nil append_is_Nil_conv map_is_Nil_conv) simp
  next
    case False
    obtain more where "fst (snippet_loop lines ms
                             ([] @ (if [] \<noteq> ([] :: string list) then [''...''] else []) @
                                map (\<lambda>i. lines ! nat i) [?s..?e],
                              [] @ (if [] \<noteq> ([] :: string list) then [- 1] else []) @
                                map (\<lambda>i. i + 1) [?s..?e], ?e))
                       = ([] @ (if [] \<noteq> ([] :: string list) then [''...''] else []) @
                                map (\<lambda>i. lines ! nat i) [?s..?e]) @ more"
      using snippet_loop_grows by blast
    then have eq: "fst (snippet_loop lines (m # ms) ([], [], - 1)) =
               ([] @ (if [] \<noteq> ([] :: string list) then [''...''] else []) @
                                map (\<lambda>i. lines ! nat i) [?s..?e]) @ more"
      by (simp only: snippet_loop_step False if_False)
    have "[?s..?e] \<noteq> []"
      using se(1) unfolding upto_Nil by linarith
    then show ?thesis unfolding eq by (simp only: append_Nil append_is_Nil_conv map_is_Nil_conv) simp
  qed
qed

lemma split_on_pieces: "l \<in> set (split_on c s) \<Longrightarrow> c \<notin> set l"
proof (induction s arbitrary: l)
  case Nil
  then show ?case by simp
next
  case (Cons x xs)
  show ?case
  proof (cases "x = c")
    case True
    with Cons show ?thesis by auto
  next
    case False
    with Cons show ?thesis
      by (cases "split_on c xs") auto
  qed
qed

lemma split_on_nonempty: "split_on c s \<noteq> []"
  by (induction s) (auto split: list.splits)

lemma split_on_append:
  "c \<notin> set l \<Longrightarrow> split_on c (l @ c # rest) = l # split_on c rest"
  by (induction l) auto

lemma split_on_single: "c \<notin> set l \<Longrightarrow> split_on c l = [l]"
  by (induction l) auto

lemma split_on_join:
  "ls \<noteq> [] \<Longrightarrow> \<forall>l \<in> set ls. c \<notin> set l \<Longrightarrow> split_on c (join [c] ls) = ls"
proof (induction "[c]" ls rule: join.induct)
  case 1
  then show ?case by simp
next
  case (2 x)
  then show ?case by (simp add: split_on_single)
next
  case (3 x y ys)
  then show ?case by (simp add: split_on_append)
qed

lemma separator_has_no_newline: "NL \<notin> set ''...''"
  by code_simp

lemma aligned_lines_have_no_newline:
  assumes "aligned (split_on NL content) sl nums"
  shows "\<forall>l \<in> set sl. NL \<notin> set l"
proof
  fix l assume "l \<in> set sl"
  then obtain k where k: "k < length sl" "l = sl ! k" by (auto simp: in_set_conv_nth)
  from assms have len: "length sl = length nums"
    by (simp add: aligned_def list_all2_lengthD)
  from assms k len have
    "(nums ! k = - 1 \<and> l = ''...'') \<or>
     (1 \<le> nums ! k \<and> nums ! k \<le> int (length (split_on NL content)) \<and>
      l = split_on NL content ! nat (nums ! k - 1))"
    by (simp add: aligned_def list_all2_conv_all_nth)
  then show "NL \<notin> set l"
  proof
    assume "nums ! k = - 1 \<and> l = ''...''"
    then show ?thesis using separator_has_no_newline by simp
  next
    assume a: "1 \<le> nums ! k \<and> nums ! k \<le> int (length (split_on NL content)) \<and>
               l = split_on NL content ! nat (nums ! k - 1)"
    then have "nat (nums ! k - 1) < length (split_on NL content)" by linarith
    with a have "l \<in> set (split_on NL content)" by simp
    then show ?thesis by (rule split_on_pieces)
  qed
qed

lemma matched_snippet_aligned:
  assumes "get_contents net (contents_url item) = ContentReplied 200 statusText (TextData content)"
    and "queryRegex env query = Inr rx"
    and "matchingLineIndices rx (split_on NL content) \<noteq> []"
  shows "\<exists>r text nums. process_code_item env net query item = Some r
           \<and> snippet r = Some text \<and> lineNumbers r = Some nums
           \<and> aligned (split_on NL content) (split_on NL text) nums
           \<and> length nums = length (split_on NL text)"
proof -
  let ?lines = "split_on NL content"
  let ?ms = "matchingLineIndices rx ?lines"
  obtain sl nums lastAdded where loop: "snippet_loop ?lines ?ms ([], [], - 1) = (sl, nums, lastAdded)"
    by (cases "snippet_loop ?lines ?ms ([], [], - 1)") auto
  have bounds: "\<forall>m \<in> set ?ms. 0 \<le> m \<and> m < int (length ?lines)"
    using matchingLineIndices_bounds by blast
  have "aligned ?lines [] []" by (simp add: aligned_def)
  from snippet_loop_aligned [OF bounds this, of "- 1"] loop
  have al: "aligned ?lines sl nums" by simp
  obtain m ms where ms: "?ms = m # ms" using assms(3) by (cases ?ms) auto
  with bounds have "0 \<le> m" "m < int (length ?lines)" by simp_all
  from snippet_loop_nonempty [OF this, of ms] loop ms have ne: "sl \<noteq> []" by simp
  from aligned_lines_have_no_newline [OF al] ne
  have roundtrip: "split_on NL (join [NL] sl) = sl" by (simp add: split_on_join)
  from al have len: "length nums = length sl"
    by (simp add: aligned_def list_all2_lengthD)
  have "process_code_item env net query item =
          Some (code_result env item
                  (or_default (ci_language item)
                     (or_default (Some (toLowerCase (last (split_on (CHR ''.'') (ci_path item)))))
                        ''Unknown''))
                  sl nums)"
    using assms loop by (simp add: process_code_item_def Let_def)
  then show ?thesis using al roundtrip len by (simp add: code_result_def)
qed

lemma separators_are_not_content:
  "process_lines opts lns rx idx ls = (out, rx') \<Longrightarrow> ContentLine n b h \<in> set out \<Longrightarrow>
   n \<noteq> Some (- 1)"
proof (induction ls arbitrary: rx idx out rx')
  case Nil
  then show ?case by simp
next
  case (Cons l ls)
  show ?case
  proof (cases "nth_opt lns idx = Some (- 1)")
    case True
    with Cons.prems obtain out' where
      "process_lines opts lns rx (Suc idx) ls = (out', rx')" and "out = Separator # out'"
      by (auto split: prod.splits)
    with Cons.prems(2) Cons.IH show ?thesis by auto
  next
    case False
    with Cons.prems obtain rx1 out' where
      "process_lines opts lns rx1 (Suc idx) ls = (out', rx')"
      and "out = out' \<or> (\<exists>b' h'. out = ContentLine (nth_opt lns idx) b' h' # out')"
      by (auto split: prod.splits option.splits if_splits)
    with Cons.prems(2) Cons.IH False show ?thesis by auto
  qed
qed

text \<open>
  In the branch for matched lines the two arrays are filled together: the snippet has as
  many lines as \<open>lineNumbers\<close> has entries, an entry \<open>-1\<close> stands for the separator
  line \<open>...\<close> and any other entry for the line of the file with that number
  (\<open>matched_snippet_aligned\<close>). The result list renders an entry \<open>-1\<close> as a
  separator and never as a content line (\<open>separators_are_not_content\<close>).
\<close>

text \<open>
  Claim C4. \<open>lineNumbers\<close> should have one entry per line of \<open>snippet\<close>, in both
  branches. The fallback branch (no line matches the query) takes the first ten lines of
  the file but always returns the ten numbers 1 to 10: for a file of three lines the
  snippet has 3 lines and \<open>lineNumbers\<close> has 10 entries.
\<close>

theorem fallback_line_numbers_exceed_snippet:
  "(case process_code_item js_env
           (example_net [] [example_hit ''src/a.ts''] (file_of [''alpha'', ''beta'', ''gamma'']))
           ''delta'' (example_hit ''src/a.ts'') of
      Some r \<Rightarrow>
        snippet r = Some (file_of [''alpha'', ''beta'', ''gamma'']) \<and>
        lineNumbers r = Some [1, 2, 3, 4, 5, 6, 7, 8, 9, 10] \<and>
        length (split_on NL (the (snippet r))) = 3 \<and>
        length (the (lineNumbers r)) = 10
    | None \<Rightarrow> False)"
  by code_simp

section \<open>Showing the matching lines only\<close>

fun matching_content_lines :: "matcher \<Rightarrow> int list \<Rightarrow> nat \<Rightarrow> string list \<Rightarrow> nat list" where
  \<comment> \<open>the indices of the lines that are not separators and that the pattern matches\<close>
  "matching_content_lines m lineNums idx [] = []"
| "matching_content_lines m lineNums idx (line # rest) =
     (if nth_opt lineNums idx \<noteq> Some (- 1) \<and> search_from m line 0 \<noteq> None then [idx] else []) @
     matching_content_lines m lineNums (Suc idx) rest"

fun expected_lines ::
  "SearchOptions \<Rightarrow> int list \<Rightarrow> matcher \<Rightarrow> nat \<Rightarrow> string list \<Rightarrow> rendered_line list" where
  \<comment> \<open>the rendering of each line on its own: a separator, a highlighted matching line,
      or a line without a match (dropped when only matches are shown)\<close>
  "expected_lines opts lineNums m idx [] = []"
| "expected_lines opts lineNums m idx (line # rest) =
     (if nth_opt lineNums idx = Some (- 1) then [Separator]
      else if search_from m line 0 \<noteq> None then
        [ContentLine (nth_opt lineNums idx) True (splice_marks line 0 (match_all_from m line 0))]
      else if highlightMatchesOnly opts then []
      else [ContentLine (nth_opt lineNums idx) False line]) @
     expected_lines opts lineNums m (Suc idx) rest"

lemma search_from_None_mono:
  "search_from m s i = None \<Longrightarrow> i \<le> j \<Longrightarrow> search_from m s j = None"
proof (induction m s i rule: search_from.induct)
  case (1 m s i)
  show ?case
  proof (cases "length s < i")
    case True
    with "1.prems" have "length s < j" by simp
    then show ?thesis by (simp add: search_from.simps [of m s j])
  next
    case False
    with "1.prems"(1) have none: "m s i = None" and next_none: "search_from m s (Suc i) = None"
      by (auto simp: search_from.simps [of m s i] split: option.splits)
    show ?thesis
    proof (cases "j = i")
      case True
      with "1.prems"(1) show ?thesis by simp
    next
      case False
      with "1.prems"(2) have "Suc i \<le> j" by simp
      from "1.IH" [OF \<open>\<not> length s < i\<close> none next_none this] show ?thesis .
    qed
  qed
qed

lemma lastIndex_reset: "lastIndex r = 0 \<Longrightarrow> r\<lparr>lastIndex := 0\<rparr> = r"
  by (cases r) simp

lemma test_miss:
  assumes "global r" and "search_from (matcher r) l 0 = None"
  shows "RegExp_test r l = (False, r\<lparr>lastIndex := 0\<rparr>)"
proof -
  have "search_from (matcher r) l (lastIndex r) = None"
    by (rule search_from_None_mono [OF assms(2)]) simp
  with assms(1) show ?thesis by (simp add: RegExp_test_def RegExp_exec_def)
qed

lemma test_hit:
  assumes "global r" and "lastIndex r = 0" and "search_from (matcher r) l 0 \<noteq> None"
  shows "\<exists>e. RegExp_test r l = (True, r\<lparr>lastIndex := e\<rparr>)"
  using assms by (auto simp: RegExp_test_def RegExp_exec_def)

lemma replace_global:
  "global r \<Longrightarrow> replace_with_marks (r\<lparr>lastIndex := e\<rparr>) l =
     (splice_marks l 0 (match_all_from (matcher r) l 0), r\<lparr>lastIndex := 0\<rparr>)"
  by (simp add: replace_with_marks_def)

lemma process_lines_expected:
  assumes "global r" and "lastIndex r = 0"
  shows "process_lines opts lns (Some r) idx ls = (expected_lines opts lns (matcher r) idx ls, Some r)"
proof (induction ls arbitrary: idx)
  case Nil
  show ?case by simp
next
  case (Cons l ls)
  show ?case
  proof (cases "nth_opt lns idx = Some (- 1)")
    case True
    then show ?thesis by (simp add: Cons.IH)
  next
    case content: False
    show ?thesis
    proof (cases "search_from (matcher r) l 0 = None")
      case True
      from test_miss [OF assms(1) True] have "RegExp_test r l = (False, r)"
        by (simp add: lastIndex_reset [OF assms(2)])
      with content True show ?thesis by (simp add: Cons.IH)
    next
      case False
      from test_hit [OF assms False] obtain e where "RegExp_test r l = (True, r\<lparr>lastIndex := e\<rparr>)"
        by blast
      moreover have "replace_with_marks (r\<lparr>lastIndex := 0\<rparr>) l =
                       (splice_marks l 0 (match_all_from (matcher r) l 0), r)"
        using replace_global [OF assms(1), of 0 l] by (simp add: lastIndex_reset [OF assms(2)])
      ultimately show ?thesis using content False by (simp add: Cons.IH)
    qed
  qed
qed

lemma count_matching_none:
  assumes "global r" and "matching_content_lines (matcher r) lns idx ls = []"
  shows "count_matching lns r idx ls = 0"
  using assms
proof (induction ls arbitrary: r idx)
  case Nil
  show ?case by simp
next
  case (Cons l ls)
  show ?case
  proof (cases "nth_opt lns idx = Some (- 1)")
    case True
    with Cons.prems Cons.IH [of r "Suc idx"] show ?thesis by simp
  next
    case False
    with Cons.prems(2) have miss: "search_from (matcher r) l 0 = None"
      and rest: "matching_content_lines (matcher r) lns (Suc idx) ls = []"
      by (cases "search_from (matcher r) l 0"; simp split: if_splits)+
    from test_miss [OF Cons.prems(1) miss] have t: "RegExp_test r l = (False, r\<lparr>lastIndex := 0\<rparr>)" .
    have "count_matching lns (r\<lparr>lastIndex := 0\<rparr>) (Suc idx) ls = 0"
      using Cons.IH [of "r\<lparr>lastIndex := 0\<rparr>" "Suc idx"] Cons.prems(1) rest by simp
    with False t show ?thesis by simp
  qed
qed

lemma count_matching_one:
  assumes "global r" and "lastIndex r = 0"
    and "matching_content_lines (matcher r) lns idx ls = [k]"
  shows "count_matching lns r idx ls = 1"
  using assms(3)
proof (induction ls arbitrary: idx)
  case Nil
  then show ?case by simp
next
  case (Cons l ls)
  show ?case
  proof (cases "nth_opt lns idx = Some (- 1)")
    case True
    with Cons.prems Cons.IH [of "Suc idx"] show ?thesis by simp
  next
    case content: False
    show ?thesis
    proof (cases "search_from (matcher r) l 0 = None")
      case True
      from test_miss [OF assms(1) True] have "RegExp_test r l = (False, r)"
        by (simp add: lastIndex_reset [OF assms(2)])
      moreover from Cons.prems content True
      have "matching_content_lines (matcher r) lns (Suc idx) ls = [k]" by simp
      ultimately show ?thesis using content Cons.IH [of "Suc idx"] by simp
    next
      case False
      from test_hit [OF assms(1,2) False] obtain e where
        t: "RegExp_test r l = (True, r\<lparr>lastIndex := e\<rparr>)" by blast
      from Cons.prems content False
      have rest: "matching_content_lines (matcher r) lns (Suc idx) ls = []" by auto
      have "count_matching lns (r\<lparr>lastIndex := e\<rparr>) (Suc idx) ls = 0"
        using count_matching_none [of "r\<lparr>lastIndex := e\<rparr>" lns "Suc idx" ls] assms(1) rest
        by simp
      with content t show ?thesis by simp
    qed
  qed
qed

lemma matching_content_lines_range:
  "i \<in> set (matching_content_lines m lns idx ls) \<Longrightarrow> idx \<le> i \<and> i < idx + length ls"
  by (induction ls arbitrary: idx) (fastforce split: if_splits)+

lemma expected_content_lines:
  assumes "highlightMatchesOnly opts"
  shows "filter (\<lambda>x. x \<noteq> Separator) (expected_lines opts lns m idx ls) =
           map (\<lambda>i. ContentLine (nth_opt lns i) True
                       (splice_marks (ls ! (i - idx)) 0 (match_all_from m (ls ! (i - idx)) 0)))
               (matching_content_lines m lns idx ls)"
proof (induction ls arbitrary: idx)
  case Nil
  show ?case by simp
next
  case (Cons l ls)
  have shift: "map (\<lambda>i. ContentLine (nth_opt lns i) True
                       (splice_marks ((l # ls) ! (i - idx)) 0
                          (match_all_from m ((l # ls) ! (i - idx)) 0)))
                 (matching_content_lines m lns (Suc idx) ls) =
               map (\<lambda>i. ContentLine (nth_opt lns i) True
                       (splice_marks (ls ! (i - Suc idx)) 0
                          (match_all_from m (ls ! (i - Suc idx)) 0)))
                 (matching_content_lines m lns (Suc idx) ls)"
  proof (rule map_cong [OF refl])
    fix i assume "i \<in> set (matching_content_lines m lns (Suc idx) ls)"
    then have "Suc idx \<le> i" using matching_content_lines_range by blast
    then have "(l # ls) ! (i - idx) = ls ! (i - Suc idx)"
      by (simp add: nth_Cons' Suc_diff_le)
    then show "ContentLine (nth_opt lns i) True
                 (splice_marks ((l # ls) ! (i - idx)) 0 (match_all_from m ((l # ls) ! (i - idx)) 0)) =
               ContentLine (nth_opt lns i) True
                 (splice_marks (ls ! (i - Suc idx)) 0 (match_all_from m (ls ! (i - Suc idx)) 0))"
      by simp
  qed
  show ?case using assms by (simp add: Cons.IH shift)
qed

lemma expected_separators:
  "count_list (expected_lines opts lns m idx ls) Separator =
     count_list (take (length ls) (drop idx lns)) (- 1)"
proof (induction ls arbitrary: idx)
  case Nil
  show ?case by simp
next
  case (Cons l ls)
  show ?case
  proof (cases "idx < length lns")
    case True
    then have "drop idx lns = lns ! idx # drop (Suc idx) lns"
      by (simp add: Cons_nth_drop_Suc)
    with True show ?thesis by (simp add: Cons.IH nth_opt_def)
  next
    case False
    then show ?thesis by (simp add: Cons.IH nth_opt_def)
  qed
qed

lemma createSearchRegex_fresh:
  "createSearchRegex env opts query = Inr (Some r) \<Longrightarrow> global r \<and> lastIndex r = 0"
  by (auto simp: createSearchRegex_def createSearchRegex_try_def new_RegExp_def
      split: if_splits option.splits sum.splits)

definition default_options :: SearchOptions where
  \<comment> \<open>the initial state of the options\<close>
  "default_options =
     \<lparr>matchWholeWord = False, matchCase = False, useRegex = False, highlightMatchesOnly = True\<rparr>"

definition example_snippet :: "string list \<Rightarrow> int list \<Rightarrow> SearchResult" where
  \<comment> \<open>a code result of octo/demo with the given snippet lines and line numbers\<close>
  "example_snippet ls ns = code_result js_env (example_hit ''src/a.ts'') ''ts'' ls ns"

text \<open>
  Claim C6. With \<open>highlightMatchesOnly\<close> set, take a snippet with line numbers in which
  exactly one line that is not a separator matches the search expression, say line \<open>k\<close>
  (for instance five content lines of which only the third matches). The rendered output
  then consists of that one line, highlighted, and of the separators of the snippet, and
  the match count is 1: it counts the matching lines, not the occurrences in a line.
\<close>

theorem only_the_matching_line_is_shown:
  assumes "highlightMatchesOnly opts"
    and "snippet result = Some text" and "text \<noteq> []"
    and "lineNumbers result = Some lns" and "lns \<noteq> []"
    and "createSearchRegex env opts query = Inr (Some r)"
    and "matching_content_lines (matcher r) lns 0 (split_on NL text) = [k]"
  shows "\<exists>out. getEnhancedCodeSnippet env opts result query = Inr (Some (NumberedView out 1))
           \<and> filter (\<lambda>x. x \<noteq> Separator) out =
               [ContentLine (nth_opt lns k) True
                  (splice_marks (split_on NL text ! k) 0
                     (match_all_from (matcher r) (split_on NL text ! k) 0))]
           \<and> count_list out Separator = count_list (take (length (split_on NL text)) lns) (- 1)"
proof -
  let ?lines = "split_on NL text"
  let ?out = "expected_lines opts lns (matcher r) 0 ?lines"
  from createSearchRegex_fresh [OF assms(6)] have g: "global r" and z: "lastIndex r = 0" by simp_all
  have p: "process_lines opts lns (Some r) 0 ?lines = (?out, Some r)"
    by (rule process_lines_expected [OF g z])
  have c: "count_matching lns r 0 ?lines = 1"
    by (rule count_matching_one [OF g z assms(7)])
  have v: "getEnhancedCodeSnippet env opts result query = Inr (Some (NumberedView ?out 1))"
    using assms(2-6) p c by (simp add: getEnhancedCodeSnippet_def)
  have f: "filter (\<lambda>x. x \<noteq> Separator) ?out =
             [ContentLine (nth_opt lns k) True
                (splice_marks (?lines ! k) 0 (match_all_from (matcher r) (?lines ! k) 0))]"
    using expected_content_lines [OF assms(1), of lns "matcher r" 0 ?lines] assms(7) by simp
  have s: "count_list ?out Separator = count_list (take (length ?lines) lns) (- 1)"
    using expected_separators [of opts lns "matcher r" 0 ?lines] by simp
  from v f s show ?thesis by blast
qed

lemma Inr_Some_the: "(case x of Inr (Some y) \<Rightarrow> True | _ \<Rightarrow> False) \<Longrightarrow> x = Inr (Some (the (projr x)))"
  by (cases x) (auto split: option.splits)

theorem only_the_matching_line_is_shown_witness:
  "highlightMatchesOnly default_options
   \<and> snippet (example_snippet [''alpha'', ''beta'', ''foo and FOO'', ''gamma'', ''delta'']
                [10, 11, 12, 13, 14])
       = Some (file_of [''alpha'', ''beta'', ''foo and FOO'', ''gamma'', ''delta''])
   \<and> lineNumbers (example_snippet [''alpha'', ''beta'', ''foo and FOO'', ''gamma'', ''delta'']
                [10, 11, 12, 13, 14])
       = Some [10, 11, 12, 13, 14]
   \<and> createSearchRegex js_env default_options ''foo''
       = Inr (Some (the (projr (createSearchRegex js_env default_options ''foo''))))
   \<and> matching_content_lines
         (matcher (the (projr (createSearchRegex js_env default_options ''foo''))))
         [10, 11, 12, 13, 14] 0
         (split_on NL (file_of [''alpha'', ''beta'', ''foo and FOO'', ''gamma'', ''delta'']))
       = [2]
   \<and> (\<exists>out. getEnhancedCodeSnippet js_env default_options
               (example_snippet [''alpha'', ''beta'', ''foo and FOO'', ''gamma'', ''delta'']
                  [10, 11, 12, 13, 14]) ''foo''
             = Inr (Some (NumberedView out 1))
           \<and> filter (\<lambda>x. x \<noteq> Separator) out =
               [ContentLine (Some 12) True
                  (MARK_OPEN @ ''foo'' @ MARK_CLOSE @ '' and '' @ MARK_OPEN @ ''FOO'' @ MARK_CLOSE)]
           \<and> count_list out Separator = 0)"
proof -
  let ?ls = "[''alpha'', ''beta'', ''foo and FOO'', ''gamma'', ''delta'']"
  let ?ns = "[10, 11, 12, 13, 14] :: int list"
  let ?res = "example_snippet ?ls ?ns"
  let ?r = "the (projr (createSearchRegex js_env default_options ''foo''))"
  have h1: "highlightMatchesOnly default_options" by code_simp
  have h2: "snippet ?res = Some (file_of ?ls)" by code_simp
  have h3: "file_of ?ls \<noteq> []" by code_simp
  have h4: "lineNumbers ?res = Some ?ns" by code_simp
  have h5: "?ns \<noteq> []" by simp
  have "case createSearchRegex js_env default_options ''foo'' of
          Inr (Some y) \<Rightarrow> True | _ \<Rightarrow> False"
    by code_simp
  then have h6: "createSearchRegex js_env default_options ''foo'' = Inr (Some ?r)"
    by (rule Inr_Some_the)
  have h7: "matching_content_lines (matcher ?r) ?ns 0 (split_on NL (file_of ?ls)) = [2]"
    by code_simp
  have e1: "nth_opt ?ns 2 = Some 12" by code_simp
  have e2: "splice_marks (split_on NL (file_of ?ls) ! 2) 0
              (match_all_from (matcher ?r) (split_on NL (file_of ?ls) ! 2) 0)
            = MARK_OPEN @ ''foo'' @ MARK_CLOSE @ '' and '' @ MARK_OPEN @ ''FOO'' @ MARK_CLOSE"
    by code_simp
  have e3: "count_list (take (length (split_on NL (file_of ?ls))) ?ns) (- 1) = 0" by code_simp
  from only_the_matching_line_is_shown [OF h1 h2 h3 h4 h5 h6 h7]
  have "\<exists>out. getEnhancedCodeSnippet js_env default_options ?res ''foo''
             = Inr (Some (NumberedView out 1))
           \<and> filter (\<lambda>x. x \<noteq> Separator) out =
               [ContentLine (Some 12) True
                  (MARK_OPEN @ ''foo'' @ MARK_CLOSE @ '' and '' @ MARK_OPEN @ ''FOO'' @ MARK_CLOSE)]
           \<and> count_list out Separator = 0"
    unfolding e1 e2 e3 .
  with h1 h2 h4 h6 h7 show ?thesis by (intro conjI)
qed

text \<open>
  The count is taken with \<open>test\<close> on one global regular expression, whose \<open>lastIndex\<close>
  is not reset between lines. With a single matching line this does no harm (above);
  with several it can skip lines: here two lines match and are shown, and the count is 1.
\<close>

lemma match_count_is_stateful:
  "getEnhancedCodeSnippet js_env default_options
     (example_snippet [''foo bar'', ''a foo'', ''zzz''] [1, 2, 3]) ''foo''
   = Inr (Some (NumberedView
       [ContentLine (Some 1) True (MARK_OPEN @ ''foo'' @ MARK_CLOSE @ '' bar''),
        ContentLine (Some 2) True (''a '' @ MARK_OPEN @ ''foo'' @ MARK_CLOSE)] 1))"
  by code_simp

section \<open>An invalid pattern gives no matcher\<close>

fun plain_lines :: "SearchOptions \<Rightarrow> int list \<Rightarrow> nat \<Rightarrow> string list \<Rightarrow> rendered_line list" where
  \<comment> \<open>the rendering of the lines when there is no matcher: separators stay, the other
      lines are shown as they are, or dropped when only matching lines are shown\<close>
  "plain_lines opts lineNums idx [] = []"
| "plain_lines opts lineNums idx (line # rest) =
     (if nth_opt lineNums idx = Some (- 1) then [Separator]
      else if highlightMatchesOnly opts then []
      else [ContentLine (nth_opt lineNums idx) False line]) @
     plain_lines opts lineNums (Suc idx) rest"

definition no_matcher_view :: "SearchOptions \<Rightarrow> SearchResult \<Rightarrow> snippet_view option" where
  "no_matcher_view opts result =
     (case snippet result of
        None \<Rightarrow> None
      | Some text \<Rightarrow>
          if text = [] then None
          else if (case lineNumbers result of Some ns \<Rightarrow> ns \<noteq> [] | None \<Rightarrow> False) then
            Some (NumberedView (plain_lines opts (the (lineNumbers result)) 0 (split_on NL text)) 0)
          else Some (PlainView text))"

lemma process_lines_no_matcher:
  "process_lines opts lns None idx ls = (plain_lines opts lns idx ls, None)"
  by (induction ls arbitrary: idx) simp_all

lemma plain_lines_dropped:
  "highlightMatchesOnly opts \<Longrightarrow> filter (\<lambda>x. x \<noteq> Separator) (plain_lines opts lns idx ls) = []"
  by (induction ls arbitrary: idx) simp_all

lemma createSearchRegex_total: "\<exists>rx. createSearchRegex env opts query = Inr rx"
  by (simp add: createSearchRegex_def split: sum.split)

lemma createHighlightPattern_total: "\<exists>rx. createHighlightPattern env query = Inr rx"
  by (simp add: createHighlightPattern_def split: sum.split)

lemma getEnhancedCodeSnippet_total: "\<exists>v. getEnhancedCodeSnippet env opts result query = Inr v"
proof -
  obtain rx where "createSearchRegex env opts query = Inr rx"
    using createSearchRegex_total by blast
  then show ?thesis
    by (simp add: getEnhancedCodeSnippet_def Let_def split: option.split prod.split)
qed

lemma createSearchRegex_invalid:
  assumes "useRegex opts" and "trim query \<noteq> []"
    and "regexp_compile env query (\<not> matchCase opts) = None"
  shows "createSearchRegex env opts query = Inr None"
  using assms
  by (cases "matchCase opts")
     (simp_all add: createSearchRegex_def createSearchRegex_try_def search_pattern_def
        new_RegExp_def)

lemma getEnhancedCodeSnippet_no_matcher:
  assumes "createSearchRegex env opts query = Inr None"
  shows "getEnhancedCodeSnippet env opts result query = Inr (no_matcher_view opts result)"
  using assms
  by (simp add: getEnhancedCodeSnippet_def no_matcher_view_def process_lines_no_matcher Let_def
      split: option.split)

definition regex_options :: "bool \<Rightarrow> SearchOptions" where
  \<comment> \<open>the regular-expression mode switched on, matching lines only or all lines\<close>
  "regex_options only_matches =
     \<lparr>matchWholeWord = False, matchCase = False, useRegex = True,
      highlightMatchesOnly = only_matches\<rparr>"

text \<open>
  Claim C7, as stated: building the matcher never throws, an invalid pattern gives
  \<open>null\<close>, and the text is then rendered without highlighting. The last part fails when
  \<open>highlightMatchesOnly\<close> is set (the initial state of the options): without a matcher
  no line counts as matching, and each line of a snippet with line numbers is dropped;
  nothing of the text is rendered.
\<close>

theorem invalid_pattern_counterexample:
  "(case createSearchRegex js_env (regex_options True) ''c++'' of
      Inr None \<Rightarrow> True | _ \<Rightarrow> False)
   \<and> getEnhancedCodeSnippet js_env (regex_options True)
        (example_snippet [''#include <vector>'', ''// c++ code''] [1, 2]) ''c++''
      = Inr (Some (NumberedView [] 0))"
  by code_simp

text \<open>
  Claim C7, amended. For every query and every combination of the options, building the
  matcher never throws (\<open>createSearchRegex\<close>, \<open>createHighlightPattern\<close>), and neither
  does rendering a snippet. With \<open>useRegex\<close> set and a query that is not a valid pattern
  the builder returns \<open>null\<close>. Without a matcher nothing is highlighted and the match
  count is 0: a snippet without line numbers is rendered as it is; in a snippet with line
  numbers the separators stay and each other line is rendered as it is when
  \<open>highlightMatchesOnly\<close> is off, and dropped when it is on.
\<close>

theorem highlight_matcher_never_throws:
  "(\<exists>rx. createSearchRegex env opts query = Inr rx)
   \<and> (\<exists>rx. createHighlightPattern env query = Inr rx)
   \<and> (\<exists>v. getEnhancedCodeSnippet env opts result query = Inr v)
   \<and> (useRegex opts \<and> trim query \<noteq> [] \<and> regexp_compile env query (\<not> matchCase opts) = None
        \<longrightarrow> createSearchRegex env opts query = Inr None)
   \<and> (createSearchRegex env opts query = Inr None
        \<longrightarrow> getEnhancedCodeSnippet env opts result query = Inr (no_matcher_view opts result))
   \<and> (highlightMatchesOnly opts
        \<longrightarrow> filter (\<lambda>x. x \<noteq> Separator) (plain_lines opts lns idx ls) = [])"
  using createSearchRegex_total createHighlightPattern_total getEnhancedCodeSnippet_total
    createSearchRegex_invalid getEnhancedCodeSnippet_no_matcher plain_lines_dropped
  by blast

theorem highlight_matcher_never_throws_witness:
  "useRegex (regex_options False)
   \<and> trim ''c++'' \<noteq> []
   \<and> regexp_compile js_env ''c++'' (\<not> matchCase (regex_options False)) = None
   \<and> createSearchRegex js_env (regex_options False) ''c++'' = Inr None
   \<and> getEnhancedCodeSnippet js_env (regex_options False)
        (example_snippet [''#include <vector>'', ''...'', ''// c++ code''] [1, - 1, 7]) ''c++''
      = Inr (Some (NumberedView
               [ContentLine (Some 1) False ''#include <vector>'', Separator,
                ContentLine (Some 7) False ''// c++ code''] 0))
   \<and> highlightMatchesOnly (regex_options True)
   \<and> filter (\<lambda>x. x \<noteq> Separator)
        (plain_lines (regex_options True) [1, - 1, 7] 0
           [''#include <vector>'', ''...'', ''// c++ code'']) = []"
proof -
  let ?res = "example_snippet [''#include <vector>'', ''...'', ''// c++ code''] [1, - 1, 7]"
  note inst = highlight_matcher_never_throws [of js_env "regex_options False" "''c++''" ?res]
  have h1: "useRegex (regex_options False)" by code_simp
  have h2: "trim ''c++'' \<noteq> []" by code_simp
  have "parse_rx [] [] [] NoAtom ''c++'' = None" by code_simp
  then have h3: "regexp_compile js_env ''c++'' (\<not> matchCase (regex_options False)) = None"
    by (simp add: js_env_def js_compile_def)
  from inst h1 h2 h3 have n: "createSearchRegex js_env (regex_options False) ''c++'' = Inr None"
    by blast
  with inst have "getEnhancedCodeSnippet js_env (regex_options False) ?res ''c++''
                 = Inr (no_matcher_view (regex_options False) ?res)"
    by blast
  moreover have "no_matcher_view (regex_options False) ?res
      = Some (NumberedView
               [ContentLine (Some 1) False ''#include <vector>'', Separator,
                ContentLine (Some 7) False ''// c++ code''] 0)"
    by code_simp
  ultimately have v: "getEnhancedCodeSnippet js_env (regex_options False) ?res ''c++''
      = Inr (Some (NumberedView
               [ContentLine (Some 1) False ''#include <vector>'', Separator,
                ContentLine (Some 7) False ''// c++ code''] 0))"
    by simp
  have h4: "highlightMatchesOnly (regex_options True)" by code_simp
  from highlight_matcher_never_throws [of _ "regex_options True"] h4
  have d: "filter (\<lambda>x. x \<noteq> Separator)
        (plain_lines (regex_options True) [1, - 1, 7] 0
           [''#include <vector>'', ''...'', ''// c++ code'']) = []"
    by blast
  from h1 h2 h3 n v h4 d show ?thesis by (intro conjI)
qed

section \<open>The order of the result list\<close>













section \<open>Scoring a query with special characters\<close>

lemma snippet_score_returns:
  assumes "\<forall>t \<in> set terms. regexp_compile env t False \<noteq> None"
  shows "\<exists>v. snippet_score env text terms = Inr v"
  using assms
proof (induction terms)
  case Nil
  show ?case by simp
next
  case (Cons t ts)
  then obtain v m where "snippet_score env text ts = Inr v" and "regexp_compile env t False = Some m"
    by auto
  then show ?case by (simp add: new_RegExp_def)
qed

lemma calculateCombinedScore_returns:
  assumes "\<forall>t \<in> set (split_ws (toLowerCase query)). regexp_compile env t False \<noteq> None"
  shows "\<exists>v. calculateCombinedScore env result query = Inr v"
proof -
  have "\<exists>v. (case snippet result of
                 Some text \<Rightarrow>
                   if text \<noteq> [] then snippet_score env (toLowerCase text)
                                        (split_ws (toLowerCase query)) else Inr 0
               | None \<Rightarrow> Inr 0) = Inr v"
  proof (cases "snippet result")
    case None
    then show ?thesis by simp
  next
    case (Some body)
    show ?thesis
    proof (cases "body = []")
      case True
      with Some show ?thesis by simp
    next
      case False
      with Some snippet_score_returns [OF assms, of "toLowerCase body"] show ?thesis by simp
    qed
  qed
  then obtain v where "(case snippet result of
                 Some text \<Rightarrow>
                   if text \<noteq> [] then snippet_score env (toLowerCase text)
                                        (split_ws (toLowerCase query)) else Inr 0
               | None \<Rightarrow> Inr 0) = Inr v" by blast
  then show ?thesis by (simp add: calculateCombinedScore_def Let_def)
qed

lemma score_results_returns:
  assumes "\<forall>t \<in> set (split_ws (toLowerCase query)). regexp_compile env t False \<noteq> None"
  shows "\<exists>out. score_results env query results = Inr out \<and> length out = length results"
proof (induction results)
  case Nil
  show ?case by simp
next
  case (Cons r rs)
  then obtain out where "score_results env query rs = Inr out" and "length out = length rs"
    by blast
  moreover obtain v where "calculateCombinedScore env r query = Inr v"
    using calculateCombinedScore_returns [OF assms] by blast
  ultimately show ?case by simp
qed

lemma fetchSearchResults_returns:
  assumes "trim query \<noteq> []"
    and "settled_value (fetchGitHubRepositories net query) \<noteq> [] \<or>
         settled_value (fetchGitHubCodeSnippets env net query) \<noteq> []"
    and "\<forall>t \<in> set (split_ws (toLowerCase query)). regexp_compile env t False \<noteq> None"
  shows "\<exists>out. fetchSearchResults env net query = Inr out \<and> out \<noteq> []"
proof -
  let ?all = "combine (settled_value (fetchGitHubRepositories net query))
                      (settled_value (fetchGitHubCodeSnippets env net query))"
  from score_results_returns [OF assms(3)] obtain out where
    out: "score_results env query ?all = Inr out" and len: "length out = length ?all"
    by blast
  from assms(2) have "?all \<noteq> []" by (auto simp: combine_def Let_def)
  with len have "out \<noteq> []" by auto
  moreover from assms(1,2) out have "fetchSearchResults env net query = Inr out"
    by (auto simp: fetchSearchResults_def Let_def)
  ultimately show ?thesis by blast
qed

text \<open>
  Claim C1. \<open>fetchSearchResults\<close> should return a non-empty list whenever an upstream
  search returns an item. It does when every term of the query compiles as a pattern
  (\<open>fetchSearchResults_returns\<close>). But \<open>calculateCombinedScore\<close> passes the terms of
  the query to \<open>new RegExp\<close> without escaping them, as the other functions do: for the
  query "c++" and one code result with a snippet, the scoring throws a SyntaxError and
  \<open>fetchSearchResults\<close> rejects.
\<close>

theorem scoring_throws_on_special_characters:
  "trim ''c++'' \<noteq> []
   \<and> (case fetchGitHubCodeSnippets js_env
             (example_net [] [example_hit ''src/a.ts''] ''// c++ code'') ''c++'' of
        Inr codes \<Rightarrow> map snippet codes = [Some ''// c++ code'']
      | Inl msg \<Rightarrow> False)
   \<and> fetchSearchResults js_env
        (example_net [] [example_hit ''src/a.ts''] ''// c++ code'') ''c++''
      = Inl ''Invalid regular expression: /c++/g: Nothing to repeat''"
  by code_simp


end
